theory Spec2Isabelle
  imports Complex_Main "HOL-Library.AList" "HOL-Library.Sublist"
begin

section \<open>Python values\<close>

text \<open>
  The reader (\<^verbatim>\<open>scripts/feishu_reader.py\<close>) works on decoded JSON payloads: Python
  dicts, lists, strings, numbers, booleans and \<^verbatim>\<open>None\<close>. A dict is an association list
  in insertion order; \<^verbatim>\<open>d[k] = v\<close> is \<open>AList.update\<close> (replace in place, or append),
  and a lookup is \<open>map_of\<close>. A Python \<^verbatim>\<open>str\<close> is represented by its UTF-8 bytes.
  A float is a rational (NaN and the infinities behave like any non-zero float in
  everything modelled here).
\<close>

datatype json =
    JNull
  | JBool bool
  | JInt int
  | JFloat rat
  | JStr string
  | JArr "json list"
  | JObj "(string \<times> json) list"

type_synonym dict = "(string \<times> json) list"

text \<open>
  Exceptions, each with the text of \<^verbatim>\<open>str(e)\<close>. \<open>Exception\<close> is what
  \<^verbatim>\<open>_make_request\<close> and \<^verbatim>\<open>read\<close> raise themselves (and stands for whatever the
  HTTP library raises); the others are raised by the interpreter and by \<^verbatim>\<open>urlparse\<close>.
\<close>

datatype error =
    Exception string
  | AttributeError string
  | TypeError string
  | ValueError string

fun str_of_error :: "error \<Rightarrow> string" where
  "str_of_error (Exception m) = m"
| "str_of_error (AttributeError m) = m"
| "str_of_error (TypeError m) = m"
| "str_of_error (ValueError m) = m"

text \<open>Python truthiness (\<^verbatim>\<open>if x:\<close>, \<^verbatim>\<open>not x\<close>).\<close>

fun truthy :: "json \<Rightarrow> bool" where
  "truthy JNull = False"
| "truthy (JBool b) = b"
| "truthy (JInt n) = (n \<noteq> 0)"
| "truthy (JFloat r) = (r \<noteq> 0)"
| "truthy (JStr s) = (s \<noteq> [])"
| "truthy (JArr xs) = (xs \<noteq> [])"
| "truthy (JObj kvs) = (kvs \<noteq> [])"

text \<open>\<^verbatim>\<open>type(x).__name__\<close>, as it appears in the interpreter's error messages.\<close>

fun type_name :: "json \<Rightarrow> string" where
  "type_name JNull = ''NoneType''"
| "type_name (JBool b) = ''bool''"
| "type_name (JInt n) = ''int''"
| "type_name (JFloat r) = ''float''"
| "type_name (JStr s) = ''str''"
| "type_name (JArr xs) = ''list''"
| "type_name (JObj kvs) = ''dict''"

definition quote :: "string \<Rightarrow> string" where
  "quote s = [CHR 0x27] @ s @ [CHR 0x27]"

text \<open>\<^verbatim>\<open>d.get(key, default)\<close> on a dict.\<close>

definition dict_get :: "dict \<Rightarrow> string \<Rightarrow> json \<Rightarrow> json" where
  "dict_get d k dflt = (case map_of d k of Some v \<Rightarrow> v | None \<Rightarrow> dflt)"

text \<open>
  \<^verbatim>\<open>x.get(key, default)\<close> on an arbitrary payload value: only a dict has the method,
  on anything else the interpreter raises AttributeError.
\<close>

fun py_get :: "json \<Rightarrow> string \<Rightarrow> json \<Rightarrow> error + json" where
  "py_get (JObj d) k dflt = Inr (dict_get d k dflt)"
| "py_get x k dflt =
     Inl (AttributeError (quote (type_name x) @ '' object has no attribute '' @ quote ''get''))"

text \<open>
  The code points of a UTF-8 string, each as a string of its own: a byte in
  \<open>0x80..0xBF\<close> continues the code point of the byte before it.
\<close>

definition is_continuation :: "char \<Rightarrow> bool" where
  "is_continuation c = (128 \<le> (of_char c :: nat) \<and> (of_char c :: nat) < 192)"

function codepoints :: "string \<Rightarrow> string list" where
  "codepoints [] = []"
| "codepoints (c # cs) =
     (c # takeWhile is_continuation cs) # codepoints (dropWhile is_continuation cs)"
  by pat_completeness auto
termination
  by (relation "measure length") (auto simp: less_Suc_eq_le length_dropWhile_le)

text \<open>
  Iterating a payload value (\<^verbatim>\<open>for x in v\<close>, \<^verbatim>\<open>xs.extend(v)\<close>): a list gives its
  elements, a string its characters, a dict its keys; anything else is not
  iterable.
\<close>

fun py_iter :: "json \<Rightarrow> error + json list" where
  "py_iter (JArr xs) = Inr xs"
| "py_iter (JStr s) = Inr (map JStr (codepoints s))"
| "py_iter (JObj d) = Inr (map (\<lambda>(k, v). JStr k) d)"
| "py_iter x = Inl (TypeError (quote (type_name x) @ '' object is not iterable''))"

definition py_extend :: "json list \<Rightarrow> json \<Rightarrow> error + json list" where
  "py_extend acc v = (case py_iter v of Inl e \<Rightarrow> Inl e | Inr xs \<Rightarrow> Inr (acc @ xs))"

subsection \<open>Strings\<close>

text \<open>\<^verbatim>\<open>s.startswith(p)\<close>, \<^verbatim>\<open>p in s\<close> and \<^verbatim>\<open>s.split(c)\<close> for a one-character separator.\<close>

fun startswith :: "string \<Rightarrow> string \<Rightarrow> bool" where
  "startswith s [] = True"
| "startswith [] (p # ps) = False"
| "startswith (c # cs) (p # ps) = (c = p \<and> startswith cs ps)"

fun py_in :: "string \<Rightarrow> string \<Rightarrow> bool" where
  "py_in p [] = (p = [])"
| "py_in p (c # cs) = (startswith (c # cs) p \<or> py_in p cs)"

fun split :: "char \<Rightarrow> string \<Rightarrow> string list" where
  "split sep [] = [[]]"
| "split sep (c # cs) =
     (if c = sep then [] # split sep cs
      else (case split sep cs of [] \<Rightarrow> [[c]] | p # ps \<Rightarrow> (c # p) # ps))"

text \<open>\<^verbatim>\<open>s.split("?")[0]\<close>: the split is never empty, so the index never fails.\<close>

definition before_query :: "string \<Rightarrow> string" where
  "before_query s = (case split CHR ''?'' s of [] \<Rightarrow> [] | p # ps \<Rightarrow> p)"

section \<open>The environment and the state\<close>

text \<open>
  What the reader calls and this repository does not define is a parameter:
  \<^item> \<open>make_request\<close> is the transport behind \<^verbatim>\<open>_make_request\<close> (the HTTP library,
    the platform and the cached access token): given the request and the state of
    the outside world it gives the decoded \<^verbatim>\<open>data\<close> payload or the exception
    raised, and the next state of the world;
  \<^item> \<open>extract_text_from_blocks\<close> is the rendering of a document's blocks as text;
  \<^item> \<open>py_str\<close> is \<^verbatim>\<open>str(x)\<close> of a payload value that is not a string, as an
    f-string formats it;
  \<^item> \<open>urlparse_path\<close> is \<^verbatim>\<open>urllib.parse.urlparse(url).path\<close>, which raises ValueError
    on some malformed inputs.
  A request is the endpoint, with the payload values the f-string puts into the URL,
  and the query parameters.
\<close>

datatype endpoint =
    Docx_Document json
  | Docx_Blocks json
  | Doc_Meta json
  | Sheets_Spreadsheet json
  | Sheets_Values json json
  | Bitable_App json
  | Bitable_Tables json
  | Bitable_Fields json json
  | Bitable_Records json json
  | Wiki_Get_Node
  | Wiki_Space_Nodes json
  | Wiki_Space json

datatype request = Request endpoint dict

text \<open>What the logger is given; one constructor for each call of it in the reader.\<close>

datatype log_event =
    Warn_Unknown_Token string
  | Info_Read string string
  | Warn_Doc_Fallback error
  | Warn_Sheet_Failed json error
  | Warn_Table_Failed json error
  | Warn_Record_Limit
  | Info_Wiki_Node json json
  | Warn_Wiki_Doc_Failed error
  | Warn_Wiki_Sheet_Failed error
  | Warn_Wiki_Bitable_Failed error
  | Warn_Wiki_Children_Failed error

record 'w env =
  make_request :: "request \<Rightarrow> 'w \<Rightarrow> (error + json) \<times> 'w"
  extract_text_from_blocks :: "json \<Rightarrow> error + string"
  py_str :: "json \<Rightarrow> string"
  urlparse_path :: "string \<Rightarrow> error + string"

record 'w state =
  world :: 'w
  logged :: "log_event list"

definition logger :: "log_event \<Rightarrow> 'w state \<Rightarrow> 'w state" where
  "logger ev s = s\<lparr>logged := logged s @ [ev]\<rparr>"

definition send :: "'w env \<Rightarrow> request \<Rightarrow> 'w state \<Rightarrow> (error + json) \<times> 'w state" where
  "send env rq s = (case make_request env rq (world s) of (r, w) \<Rightarrow> (r, s\<lparr>world := w\<rparr>))"

section \<open>Type resolution\<close>

definition TYPE_DOCX :: string where "TYPE_DOCX = ''docx''"
definition TYPE_DOC :: string where "TYPE_DOC = ''doc''"
definition TYPE_SHEET :: string where "TYPE_SHEET = ''sheet''"
definition TYPE_BITABLE :: string where "TYPE_BITABLE = ''bitable''"
definition TYPE_WIKI :: string where "TYPE_WIKI = ''wiki''"
definition TYPE_FILE :: string where "TYPE_FILE = ''file''"
definition TYPE_SLIDES :: string where "TYPE_SLIDES = ''slides''"

text \<open>The dict \<^verbatim>\<open>TOKEN_PREFIXES\<close>, in its insertion order (the order of iteration).\<close>

definition TOKEN_PREFIXES :: "(string \<times> string) list" where
  "TOKEN_PREFIXES =
     [(''docx_'', TYPE_DOCX), (''doc_'', TYPE_DOC), (''sheet_'', TYPE_SHEET),
      (''shtcn'', TYPE_SHEET), (''base'', TYPE_BITABLE), (''bascn'', TYPE_BITABLE),
      (''wikcn'', TYPE_WIKI)]"

definition url_markers :: "string list" where
  "url_markers = [''docx'', ''doc'', ''wiki'', ''sheets'', ''base'', ''file'']"

text \<open>
  The first loop of \<^verbatim>\<open>_extract_token_from_url\<close>: the part after the first marker
  that has a part after it (\<^verbatim>\<open>i + 1 < len(path_parts)\<close>).
\<close>

fun after_marker :: "string list \<Rightarrow> string option" where
  "after_marker [] = None"
| "after_marker (part # rest) =
     (if part \<in> set url_markers
      then (case rest of [] \<Rightarrow> after_marker rest | nxt # _ \<Rightarrow> Some (before_query nxt))
      else after_marker rest)"

definition extract_token_from_url :: "'w env \<Rightarrow> string \<Rightarrow> error + string" where
  "extract_token_from_url env url =
     (case urlparse_path env url of
        Inl e \<Rightarrow> Inl e
      | Inr path \<Rightarrow>
          (let path_parts = split CHR ''/'' path in
           case after_marker path_parts of
             Some token \<Rightarrow> Inr token
           | None \<Rightarrow>
               (case find (\<lambda>part. part \<noteq> []) (rev path_parts) of
                  Some part \<Rightarrow> Inr (before_query part)
                | None \<Rightarrow> Inr url)))"

text \<open>The condition of the loop of \<^verbatim>\<open>detect_type\<close>, and the loop.\<close>

definition prefix_matches :: "string \<Rightarrow> string \<Rightarrow> bool" where
  "prefix_matches pre token = (startswith token pre \<or> py_in pre token)"

fun match_prefix :: "(string \<times> string) list \<Rightarrow> string \<Rightarrow> string option" where
  "match_prefix [] token = None"
| "match_prefix ((pre, doc_type) # rest) token =
     (if prefix_matches pre token then Some doc_type else match_prefix rest token)"

definition detect_type ::
  "'w env \<Rightarrow> string \<Rightarrow> 'w state \<Rightarrow> (error + string \<times> string) \<times> 'w state" where
  "detect_type env token_or_url s =
     (case (if startswith token_or_url ''http''
            then extract_token_from_url env token_or_url
            else Inr token_or_url) of
        Inl e \<Rightarrow> (Inl e, s)
      | Inr token \<Rightarrow>
          (case match_prefix TOKEN_PREFIXES token of
             Some doc_type \<Rightarrow> (Inr (doc_type, token), s)
           | None \<Rightarrow> (Inr (TYPE_DOCX, token), logger (Warn_Unknown_Token token) s)))"

section \<open>Paginated listings\<close>

text \<open>
  \<^verbatim>\<open>if page_token: params["page_token"] = page_token\<close>. Each \<^verbatim>\<open>while True\<close> loop is a
  recursive function of its loop variables (the cursor and the accumulated list);
  a run that never leaves the loop has the value \<open>None\<close>.
\<close>

definition with_page_token :: "dict \<Rightarrow> json \<Rightarrow> dict" where
  "with_page_token params page_token =
     (if truthy page_token then AList.update ''page_token'' page_token params else params)"

partial_function (option) get_all_blocks_loop ::
  "'w env \<Rightarrow> json \<Rightarrow> json \<Rightarrow> json list \<Rightarrow> 'w state \<Rightarrow> ((error + json list) \<times> 'w state) option"
where
  "get_all_blocks_loop env doc_token page_token all_items s =
     (case send env (Request (Docx_Blocks doc_token)
                      (with_page_token [(''page_size'', JInt 500)] page_token)) s of
        (Inl e, s1) \<Rightarrow> Some (Inl e, s1)
      | (Inr data, s1) \<Rightarrow>
          (case py_get data ''items'' (JArr []) of
             Inl e \<Rightarrow> Some (Inl e, s1)
           | Inr items \<Rightarrow>
               (case py_extend all_items items of
                  Inl e \<Rightarrow> Some (Inl e, s1)
                | Inr all_items' \<Rightarrow>
                    (case py_get data ''has_more'' (JBool False) of
                       Inl e \<Rightarrow> Some (Inl e, s1)
                     | Inr has_more \<Rightarrow>
                         if \<not> truthy has_more then Some (Inr all_items', s1)
                         else (case py_get data ''page_token'' JNull of
                                 Inl e \<Rightarrow> Some (Inl e, s1)
                               | Inr page_token' \<Rightarrow>
                                   get_all_blocks_loop env doc_token page_token' all_items' s1)))))"

definition get_all_blocks ::
  "'w env \<Rightarrow> json \<Rightarrow> json \<Rightarrow> 'w state \<Rightarrow> ((error + dict) \<times> 'w state) option" where
  "get_all_blocks env doc_token page_token s =
     (case get_all_blocks_loop env doc_token page_token [] s of
        None \<Rightarrow> None
      | Some (Inl e, s') \<Rightarrow> Some (Inl e, s')
      | Some (Inr all_items, s') \<Rightarrow> Some (Inr [(''items'', JArr all_items)], s'))"

partial_function (option) get_all_bitable_records_loop ::
  "'w env \<Rightarrow> json \<Rightarrow> json \<Rightarrow> json \<Rightarrow> json list \<Rightarrow> 'w state \<Rightarrow> ((error + json list) \<times> 'w state) option"
where
  "get_all_bitable_records_loop env app_token table_id page_token all_records s =
     (case send env (Request (Bitable_Records app_token table_id)
                      (with_page_token [(''page_size'', JInt 500)] page_token)) s of
        (Inl e, s1) \<Rightarrow> Some (Inl e, s1)
      | (Inr data, s1) \<Rightarrow>
          (case py_get data ''items'' (JArr []) of
             Inl e \<Rightarrow> Some (Inl e, s1)
           | Inr records \<Rightarrow>
               (case py_extend all_records records of
                  Inl e \<Rightarrow> Some (Inl e, s1)
                | Inr all_records' \<Rightarrow>
                    (case py_get data ''has_more'' (JBool False) of
                       Inl e \<Rightarrow> Some (Inl e, s1)
                     | Inr has_more \<Rightarrow>
                         if \<not> truthy has_more then Some (Inr all_records', s1)
                         else (case py_get data ''page_token'' JNull of
                                 Inl e \<Rightarrow> Some (Inl e, s1)
                               | Inr page_token' \<Rightarrow>
                                   if length all_records' > 10000
                                   then Some (Inr all_records', logger Warn_Record_Limit s1)
                                   else get_all_bitable_records_loop env app_token table_id
                                          page_token' all_records' s1)))))"

definition get_all_bitable_records ::
  "'w env \<Rightarrow> json \<Rightarrow> json \<Rightarrow> 'w state \<Rightarrow> ((error + json list) \<times> 'w state) option" where
  "get_all_bitable_records env app_token table_id s =
     get_all_bitable_records_loop env app_token table_id JNull [] s"

partial_function (option) get_wiki_children_loop ::
  "'w env \<Rightarrow> json \<Rightarrow> json \<Rightarrow> json \<Rightarrow> json list \<Rightarrow> 'w state \<Rightarrow> ((error + json list) \<times> 'w state) option"
where
  "get_wiki_children_loop env space_id parent_token page_token all_children s =
     (case send env (Request (Wiki_Space_Nodes space_id)
                      (with_page_token
                         [(''page_size'', JInt 50), (''parent_node_token'', parent_token)]
                         page_token)) s of
        (Inl e, s1) \<Rightarrow> Some (Inl e, s1)
      | (Inr data, s1) \<Rightarrow>
          (case py_get data ''items'' (JArr []) of
             Inl e \<Rightarrow> Some (Inl e, s1)
           | Inr items \<Rightarrow>
               (case py_extend all_children items of
                  Inl e \<Rightarrow> Some (Inl e, s1)
                | Inr all_children' \<Rightarrow>
                    (case py_get data ''has_more'' (JBool False) of
                       Inl e \<Rightarrow> Some (Inl e, s1)
                     | Inr has_more \<Rightarrow>
                         if \<not> truthy has_more then Some (Inr all_children', s1)
                         else (case py_get data ''page_token'' JNull of
                                 Inl e \<Rightarrow> Some (Inl e, s1)
                               | Inr page_token' \<Rightarrow>
                                   get_wiki_children_loop env space_id parent_token
                                     page_token' all_children' s1)))))"

definition get_wiki_children ::
  "'w env \<Rightarrow> json \<Rightarrow> json \<Rightarrow> 'w state \<Rightarrow> ((error + json list) \<times> 'w state) option" where
  "get_wiki_children env space_id parent_token s =
     get_wiki_children_loop env space_id parent_token JNull [] s"

partial_function (option) get_wiki_space_nodes_loop ::
  "'w env \<Rightarrow> json \<Rightarrow> json \<Rightarrow> json \<Rightarrow> json list \<Rightarrow> 'w state \<Rightarrow> ((error + json list) \<times> 'w state) option"
where
  "get_wiki_space_nodes_loop env space_id parent_token page_token all_nodes s =
     (case send env (Request (Wiki_Space_Nodes space_id)
                      (with_page_token
                         (if truthy parent_token
                          then AList.update ''parent_node_token'' parent_token
                                 [(''page_size'', JInt 50)]
                          else [(''page_size'', JInt 50)])
                         page_token)) s of
        (Inl e, s1) \<Rightarrow> Some (Inl e, s1)
      | (Inr data, s1) \<Rightarrow>
          (case py_get data ''items'' (JArr []) of
             Inl e \<Rightarrow> Some (Inl e, s1)
           | Inr items \<Rightarrow>
               (case py_extend all_nodes items of
                  Inl e \<Rightarrow> Some (Inl e, s1)
                | Inr all_nodes' \<Rightarrow>
                    (case py_get data ''has_more'' (JBool False) of
                       Inl e \<Rightarrow> Some (Inl e, s1)
                     | Inr has_more \<Rightarrow>
                         if \<not> truthy has_more then Some (Inr all_nodes', s1)
                         else (case py_get data ''page_token'' JNull of
                                 Inl e \<Rightarrow> Some (Inl e, s1)
                               | Inr page_token' \<Rightarrow>
                                   get_wiki_space_nodes_loop env space_id parent_token
                                     page_token' all_nodes' s1)))))"

definition get_wiki_space_nodes ::
  "'w env \<Rightarrow> json \<Rightarrow> json \<Rightarrow> 'w state \<Rightarrow> ((error + json list) \<times> 'w state) option" where
  "get_wiki_space_nodes env space_id parent_token s =
     get_wiki_space_nodes_loop env space_id parent_token JNull [] s"

section \<open>Readers\<close>

text \<open>
  \<open>as_dict x\<close> is the receiver of \<^verbatim>\<open>x.get(...)\<close>: the dict itself, or the AttributeError
  of a value that has no such method. It stands where the code calls \<^verbatim>\<open>get\<close> on the
  same value several times.
\<close>

definition as_dict :: "json \<Rightarrow> error + dict" where
  "as_dict x = (case x of
      JObj d \<Rightarrow> Inr d
    | _ \<Rightarrow> Inl (AttributeError
               (quote (type_name x) @ '' object has no attribute '' @ quote ''get'')))"

text \<open>
  An f-string field: a string as it is, any other value through \<^verbatim>\<open>str\<close>. The three
  literals are the UTF-8 bytes of the source's (Chinese) texts: the note of a legacy
  document, the message of the exception of \<^verbatim>\<open>read\<close> before the type, and the note of
  \<^verbatim>\<open>_read_wiki\<close> before and after the type.
\<close>

definition format_value :: "'w env \<Rightarrow> json \<Rightarrow> string" where
  "format_value env v = (case v of JStr s \<Rightarrow> s | _ \<Rightarrow> py_str env v)"

definition legacy_note :: string where
  "legacy_note = map char_of
     [230, 151, 167, 231, 137, 136, 230, 150, 135, 230, 161, 163, 40, 100, 111, 99, 41, 65,
      80, 73, 229, 138, 159, 232, 131, 189, 230, 156, 137, 233, 153, 144, 239, 188, 140,
      229, 187, 186, 232, 174, 174, 228, 189, 191, 231, 148, 168, 230, 150, 176, 231, 137,
      136, 230, 150, 135, 230, 161, 163, 40, 100, 111, 99, 120, 41 :: nat]"

definition unsupported_type_message :: string where
  "unsupported_type_message = map char_of
     [228, 184, 141, 230, 148, 175, 230, 140, 129, 231, 154, 132, 230, 150, 135, 230, 161,
      163, 231, 177, 187, 229, 158, 139, 58, 32 :: nat]"

definition unsupported_note :: "'w env \<Rightarrow> json \<Rightarrow> string" where
  "unsupported_note env obj_type =
     map char_of
       [230, 154, 130, 228, 184, 141, 230, 148, 175, 230, 140, 129, 232, 175, 187, 229, 143,
        150, 231, 177, 187, 229, 158, 139, 32 :: nat]
     @ format_value env obj_type
     @ map char_of [32, 231, 154, 132, 229, 134, 133, 229, 174, 185 :: nat]"

subsection \<open>docx and doc\<close>

text \<open>A request without query parameters has the empty parameter dict.\<close>

definition read_docx ::
  "'w env \<Rightarrow> json \<Rightarrow> 'w state \<Rightarrow> ((error + dict) \<times> 'w state) option" where
  "read_docx env doc_token s =
     (case send env (Request (Docx_Document doc_token) []) s of
        (Inl e, s1) \<Rightarrow> Some (Inl e, s1)
      | (Inr doc_info, s1) \<Rightarrow>
          (case get_all_blocks env doc_token JNull s1 of
             None \<Rightarrow> None
           | Some (Inl e, s2) \<Rightarrow> Some (Inl e, s2)
           | Some (Inr blocks_data, s2) \<Rightarrow>
               (case extract_text_from_blocks env (dict_get blocks_data ''items'' (JArr [])) of
                  Inl e \<Rightarrow> Some (Inl e, s2)
                | Inr text_content \<Rightarrow>
                    (case py_get doc_info ''document'' (JObj []) of
                       Inl e \<Rightarrow> Some (Inl e, s2)
                     | Inr document \<Rightarrow>
                         Some (Inr [(''document'', document),
                                    (''blocks'', dict_get blocks_data ''items'' (JArr [])),
                                    (''text_content'', JStr text_content)], s2)))))"

definition read_doc ::
  "'w env \<Rightarrow> json \<Rightarrow> 'w state \<Rightarrow> ((error + dict) \<times> 'w state) option" where
  "read_doc env doc_token s =
     (case send env (Request (Doc_Meta doc_token) []) s of
        (Inr meta, s1) \<Rightarrow> Some (Inr [(''document'', meta), (''note'', JStr legacy_note)], s1)
      | (Inl e, s1) \<Rightarrow> read_docx env doc_token (logger (Warn_Doc_Fallback e) s1))"

subsection \<open>sheet\<close>

text \<open>The \<^verbatim>\<open>try\<close> block of the loop over the sheets: the values of one sheet.\<close>

definition sheet_values ::
  "'w env \<Rightarrow> json \<Rightarrow> json \<Rightarrow> 'w state \<Rightarrow> (error + json) \<times> 'w state" where
  "sheet_values env sheet_token sheet_id s =
     (case send env (Request (Sheets_Values sheet_token sheet_id) []) s of
        (Inl e, s1) \<Rightarrow> (Inl e, s1)
      | (Inr vals, s1) \<Rightarrow>
          (case py_get vals ''valueRange'' (JObj []) of
             Inl e \<Rightarrow> (Inl e, s1)
           | Inr value_range \<Rightarrow>
               (case py_get value_range ''values'' (JArr []) of
                  Inl e \<Rightarrow> (Inl e, s1)
                | Inr vs \<Rightarrow> (Inr vs, s1))))"

fun read_sheet_loop ::
  "'w env \<Rightarrow> json \<Rightarrow> json list \<Rightarrow> json list \<Rightarrow> 'w state \<Rightarrow> (error + json list) \<times> 'w state"
where
  "read_sheet_loop env sheet_token [] sheets_data s = (Inr sheets_data, s)"
| "read_sheet_loop env sheet_token (sheet # rest) sheets_data s =
     (case as_dict sheet of
        Inl e \<Rightarrow> (Inl e, s)
      | Inr sh \<Rightarrow>
          (let sheet_id = dict_get sh ''sheet_id'' JNull;
               title = dict_get sh ''title'' (JStr ''Sheet'')
           in case sheet_values env sheet_token sheet_id s of
                (Inr vs, s1) \<Rightarrow>
                  read_sheet_loop env sheet_token rest
                    (sheets_data @ [JObj [(''sheet_id'', sheet_id), (''title'', title),
                                          (''properties'', sheet), (''values'', vs)]]) s1
              | (Inl e, s1) \<Rightarrow>
                  read_sheet_loop env sheet_token rest
                    (sheets_data @ [JObj [(''sheet_id'', sheet_id), (''title'', title),
                                          (''properties'', sheet),
                                          (''error'', JStr (str_of_error e))]])
                    (logger (Warn_Sheet_Failed title e) s1)))"

definition read_sheet ::
  "'w env \<Rightarrow> json \<Rightarrow> 'w state \<Rightarrow> (error + dict) \<times> 'w state" where
  "read_sheet env sheet_token s =
     (case send env (Request (Sheets_Spreadsheet sheet_token) []) s of
        (Inl e, s1) \<Rightarrow> (Inl e, s1)
      | (Inr meta, s1) \<Rightarrow>
          (case py_get meta ''spreadsheet'' (JObj []) of
             Inl e \<Rightarrow> (Inl e, s1)
           | Inr spreadsheet \<Rightarrow>
               (case as_dict spreadsheet of
                  Inl e \<Rightarrow> (Inl e, s1)
                | Inr sp \<Rightarrow>
                    (case py_iter (dict_get sp ''sheets'' (JArr [])) of
                       Inl e \<Rightarrow> (Inl e, s1)
                     | Inr sheets \<Rightarrow>
                         (case read_sheet_loop env sheet_token sheets [] s1 of
                            (Inl e, s2) \<Rightarrow> (Inl e, s2)
                          | (Inr sheets_data, s2) \<Rightarrow>
                              (Inr [(''spreadsheet'',
                                      JObj [(''title'', dict_get sp ''title'' (JStr [])),
                                            (''owner_id'', dict_get sp ''owner_id'' (JStr [])),
                                            (''sheet_count'', JInt (int (length sheets)))]),
                                    (''sheets'', JArr sheets_data)], s2))))))"

subsection \<open>bitable\<close>

text \<open>The \<^verbatim>\<open>try\<close> block of the loop over the tables: the fields and records of one table.\<close>

definition table_content ::
  "'w env \<Rightarrow> json \<Rightarrow> json \<Rightarrow> 'w state \<Rightarrow> ((error + json \<times> json list) \<times> 'w state) option" where
  "table_content env app_token table_id s =
     (case send env (Request (Bitable_Fields app_token table_id) []) s of
        (Inl e, s1) \<Rightarrow> Some (Inl e, s1)
      | (Inr fields_data, s1) \<Rightarrow>
          (case py_get fields_data ''items'' (JArr []) of
             Inl e \<Rightarrow> Some (Inl e, s1)
           | Inr table_fields \<Rightarrow>
               (case get_all_bitable_records env app_token table_id s1 of
                  None \<Rightarrow> None
                | Some (Inl e, s2) \<Rightarrow> Some (Inl e, s2)
                | Some (Inr records, s2) \<Rightarrow> Some (Inr (table_fields, records), s2))))"

fun read_bitable_loop ::
  "'w env \<Rightarrow> json \<Rightarrow> json list \<Rightarrow> json list \<Rightarrow> 'w state
   \<Rightarrow> ((error + json list) \<times> 'w state) option"
where
  "read_bitable_loop env app_token [] tables_content s = Some (Inr tables_content, s)"
| "read_bitable_loop env app_token (table # rest) tables_content s =
     (case as_dict table of
        Inl e \<Rightarrow> Some (Inl e, s)
      | Inr tb \<Rightarrow>
          (let table_id = dict_get tb ''table_id'' JNull;
               table_name = dict_get tb ''name'' (JStr ''Table'')
           in case table_content env app_token table_id s of
                None \<Rightarrow> None
              | Some (Inr (table_fields, records), s1) \<Rightarrow>
                  read_bitable_loop env app_token rest
                    (tables_content @ [JObj [(''table_id'', table_id), (''name'', table_name),
                                             (''fields'', table_fields), (''records'', JArr records),
                                             (''record_count'', JInt (int (length records)))]]) s1
              | Some (Inl e, s1) \<Rightarrow>
                  read_bitable_loop env app_token rest
                    (tables_content @ [JObj [(''table_id'', table_id), (''name'', table_name),
                                             (''error'', JStr (str_of_error e))]])
                    (logger (Warn_Table_Failed table_name e) s1)))"

definition read_bitable ::
  "'w env \<Rightarrow> json \<Rightarrow> 'w state \<Rightarrow> ((error + dict) \<times> 'w state) option" where
  "read_bitable env app_token s =
     (case send env (Request (Bitable_App app_token) []) s of
        (Inl e, s1) \<Rightarrow> Some (Inl e, s1)
      | (Inr meta, s1) \<Rightarrow>
          (case send env (Request (Bitable_Tables app_token) []) s1 of
             (Inl e, s2) \<Rightarrow> Some (Inl e, s2)
           | (Inr tables_data, s2) \<Rightarrow>
               (case py_get tables_data ''items'' (JArr []) of
                  Inl e \<Rightarrow> Some (Inl e, s2)
                | Inr tables_value \<Rightarrow>
                    (case py_iter tables_value of
                       Inl e \<Rightarrow> Some (Inl e, s2)
                     | Inr tables \<Rightarrow>
                         (case read_bitable_loop env app_token tables [] s2 of
                            None \<Rightarrow> None
                          | Some (Inl e, s3) \<Rightarrow> Some (Inl e, s3)
                          | Some (Inr tables_content, s3) \<Rightarrow>
                              (case py_get meta ''app'' (JObj []) of
                                 Inl e \<Rightarrow> Some (Inl e, s3)
                               | Inr app \<Rightarrow>
                                   Some (Inr [(''app'', app),
                                              (''tables'', JArr tables_content),
                                              (''table_count'', JInt (int (length tables)))],
                                         s3)))))))"

subsection \<open>wiki\<close>

definition get_wiki_node_info ::
  "'w env \<Rightarrow> json \<Rightarrow> 'w state \<Rightarrow> (error + json) \<times> 'w state" where
  "get_wiki_node_info env token s =
     (case send env (Request Wiki_Get_Node [(''token'', token)]) s of
        (Inl e, s1) \<Rightarrow> (Inl e, s1)
      | (Inr data, s1) \<Rightarrow>
          (case py_get data ''node'' (JObj []) of
             Inl e \<Rightarrow> (Inl e, s1)
           | Inr node \<Rightarrow> (Inr node, s1)))"

text \<open>
  The \<^verbatim>\<open>if\<close>/\<^verbatim>\<open>elif\<close> chain of \<^verbatim>\<open>_read_wiki\<close> that computes \<^verbatim>\<open>content\<close>: a failing reader
  gives an \<^verbatim>\<open>error\<close> dict and a warning, a type without a reader gives a note.
\<close>

definition wiki_content ::
  "'w env \<Rightarrow> json \<Rightarrow> json \<Rightarrow> 'w state \<Rightarrow> (json \<times> 'w state) option" where
  "wiki_content env obj_type obj_token s =
     (if obj_type = JStr ''docx'' \<or> obj_type = JStr ''doc'' then
        (case read_docx env obj_token s of
           None \<Rightarrow> None
         | Some (Inr content, s1) \<Rightarrow> Some (JObj content, s1)
         | Some (Inl e, s1) \<Rightarrow>
             Some (JObj [(''error'', JStr (str_of_error e))], logger (Warn_Wiki_Doc_Failed e) s1))
      else if obj_type = JStr ''sheet'' then
        (case read_sheet env obj_token s of
           (Inr content, s1) \<Rightarrow> Some (JObj content, s1)
         | (Inl e, s1) \<Rightarrow>
             Some (JObj [(''error'', JStr (str_of_error e))], logger (Warn_Wiki_Sheet_Failed e) s1))
      else if obj_type = JStr ''bitable'' then
        (case read_bitable env obj_token s of
           None \<Rightarrow> None
         | Some (Inr content, s1) \<Rightarrow> Some (JObj content, s1)
         | Some (Inl e, s1) \<Rightarrow>
             Some (JObj [(''error'', JStr (str_of_error e))],
                   logger (Warn_Wiki_Bitable_Failed e) s1))
      else Some (JObj [(''note'', JStr (unsupported_note env obj_type))], s))"

definition read_wiki ::
  "'w env \<Rightarrow> json \<Rightarrow> 'w state \<Rightarrow> ((error + dict) \<times> 'w state) option" where
  "read_wiki env token s =
     (case get_wiki_node_info env token s of
        (Inl e, s1) \<Rightarrow> Some (Inl e, s1)
      | (Inr node_info, s1) \<Rightarrow>
          (case as_dict node_info of
             Inl e \<Rightarrow> Some (Inl e, s1)
           | Inr ni \<Rightarrow>
               (let obj_type = dict_get ni ''obj_type'' (JStr []);
                    obj_token = dict_get ni ''obj_token'' (JStr [])
                in case wiki_content env obj_type obj_token
                          (logger (Info_Wiki_Node obj_type obj_token) s1) of
                     None \<Rightarrow> None
                   | Some (content, s2) \<Rightarrow>
                       if truthy (dict_get ni ''has_child'' (JBool False)) then
                         (case get_wiki_children env (dict_get ni ''space_id'' JNull) token s2 of
                            None \<Rightarrow> None
                          | Some (Inr children, s3) \<Rightarrow>
                              Some (Inr [(''node'', node_info), (''content'', content),
                                         (''children'', JArr children)], s3)
                          | Some (Inl e, s3) \<Rightarrow>
                              Some (Inr [(''node'', node_info), (''content'', content),
                                         (''children'', JArr [])],
                                    logger (Warn_Wiki_Children_Failed e) s3))
                       else Some (Inr [(''node'', node_info), (''content'', content),
                                       (''children'', JArr [])], s2))))"

subsection \<open>The unified read\<close>

text \<open>The dict \<^verbatim>\<open>readers\<close> of \<^verbatim>\<open>read\<close>, and \<^verbatim>\<open>readers.get(detected_type)\<close>.\<close>

definition readers ::
  "'w env \<Rightarrow> string
   \<Rightarrow> (json \<Rightarrow> 'w state \<Rightarrow> ((error + dict) \<times> 'w state) option) option" where
  "readers env detected_type =
     (if detected_type = TYPE_DOCX then Some (read_docx env)
      else if detected_type = TYPE_DOC then Some (read_doc env)
      else if detected_type = TYPE_SHEET then Some (\<lambda>token s. Some (read_sheet env token s))
      else if detected_type = TYPE_BITABLE then Some (read_bitable env)
      else if detected_type = TYPE_WIKI then Some (read_wiki env)
      else None)"

definition read ::
  "'w env \<Rightarrow> string \<Rightarrow> string option \<Rightarrow> 'w state \<Rightarrow> ((error + dict) \<times> 'w state) option" where
  "read env token_or_url doc_type s =
     (case (case doc_type of
              None \<Rightarrow> detect_type env token_or_url s
            | Some given \<Rightarrow>
                if given \<noteq> [] then
                  (case (if startswith token_or_url ''http''
                         then extract_token_from_url env token_or_url
                         else Inr token_or_url) of
                     Inl e \<Rightarrow> (Inl e, s)
                   | Inr token \<Rightarrow> (Inr (given, token), s))
                else detect_type env token_or_url s) of
        (Inl e, s1) \<Rightarrow> Some (Inl e, s1)
      | (Inr (detected_type, token), s1) \<Rightarrow>
          (let s2 = logger (Info_Read detected_type token) s1 in
           case readers env detected_type of
             None \<Rightarrow> Some (Inl (Exception (unsupported_type_message @ detected_type)), s2)
           | Some reader \<Rightarrow>
               (case reader (JStr token) s2 of
                  None \<Rightarrow> None
                | Some (Inl e, s3) \<Rightarrow> Some (Inl e, s3)
                | Some (Inr result, s3) \<Rightarrow>
                    Some (Inr (AList.update ''_meta''
                                 (JObj [(''type'', JStr detected_type), (''token'', JStr token)])
                                 result), s3))))"

subsection \<open>The recursive traversal of a wiki space\<close>

text \<open>
  The first \<^verbatim>\<open>try\<close> block of the loop of \<^verbatim>\<open>_read_wiki_nodes_recursive\<close>: the node with
  \<^verbatim>\<open>content\<close> set, or with \<^verbatim>\<open>content_error\<close> set when the reader raised, or unchanged when
  its type has no reader.
\<close>

definition node_content ::
  "'w env \<Rightarrow> dict \<Rightarrow> json \<Rightarrow> json \<Rightarrow> 'w state \<Rightarrow> (dict \<times> 'w state) option" where
  "node_content env node obj_type obj_token s =
     (if obj_type = JStr ''docx'' \<or> obj_type = JStr ''doc'' then
        (case read_docx env obj_token s of
           None \<Rightarrow> None
         | Some (Inr content, s1) \<Rightarrow> Some (AList.update ''content'' (JObj content) node, s1)
         | Some (Inl e, s1) \<Rightarrow>
             Some (AList.update ''content_error'' (JStr (str_of_error e)) node, s1))
      else if obj_type = JStr ''sheet'' then
        (case read_sheet env obj_token s of
           (Inr content, s1) \<Rightarrow> Some (AList.update ''content'' (JObj content) node, s1)
         | (Inl e, s1) \<Rightarrow>
             Some (AList.update ''content_error'' (JStr (str_of_error e)) node, s1))
      else if obj_type = JStr ''bitable'' then
        (case read_bitable env obj_token s of
           None \<Rightarrow> None
         | Some (Inr content, s1) \<Rightarrow> Some (AList.update ''content'' (JObj content) node, s1)
         | Some (Inl e, s1) \<Rightarrow>
             Some (AList.update ''content_error'' (JStr (str_of_error e)) node, s1))
      else Some (node, s))"

text \<open>
  \<^verbatim>\<open>_read_wiki_nodes_recursive\<close>, its \<^verbatim>\<open>for\<close> loop and the body of the loop. The nodes are
  dicts that the code updates in place; here the loop returns the updated nodes. A
  node that is not a dict makes \<^verbatim>\<open>node.get\<close> raise, outside of both \<^verbatim>\<open>try\<close> blocks.
\<close>

function read_wiki_nodes_recursive ::
    "'w env \<Rightarrow> json \<Rightarrow> json list \<Rightarrow> int \<Rightarrow> 'w state \<Rightarrow> ((error + json list) \<times> 'w state) option"
  and read_wiki_nodes_loop ::
    "'w env \<Rightarrow> json \<Rightarrow> json list \<Rightarrow> int \<Rightarrow> 'w state \<Rightarrow> ((error + json list) \<times> 'w state) option"
  and read_wiki_node ::
    "'w env \<Rightarrow> json \<Rightarrow> json \<Rightarrow> int \<Rightarrow> 'w state \<Rightarrow> ((error + json) \<times> 'w state) option"
where
  "read_wiki_nodes_recursive env space_id nodes depth s =
     (if depth > 5 then Some (Inr nodes, s)
      else read_wiki_nodes_loop env space_id nodes depth s)"
| "read_wiki_nodes_loop env space_id [] depth s = Some (Inr [], s)"
| "read_wiki_nodes_loop env space_id (node # rest) depth s =
     (case read_wiki_node env space_id node depth s of
        None \<Rightarrow> None
      | Some (Inl e, s1) \<Rightarrow> Some (Inl e, s1)
      | Some (Inr node', s1) \<Rightarrow>
          (case read_wiki_nodes_loop env space_id rest depth s1 of
             None \<Rightarrow> None
           | Some (Inl e, s2) \<Rightarrow> Some (Inl e, s2)
           | Some (Inr rest', s2) \<Rightarrow> Some (Inr (node' # rest'), s2)))"
| "read_wiki_node env space_id node depth s =
     (case as_dict node of
        Inl e \<Rightarrow> Some (Inl e, s)
      | Inr nd \<Rightarrow>
          (let node_token = dict_get nd ''node_token'' JNull;
               obj_type = dict_get nd ''obj_type'' JNull;
               obj_token = dict_get nd ''obj_token'' JNull
           in case node_content env nd obj_type obj_token s of
                None \<Rightarrow> None
              | Some (nd1, s1) \<Rightarrow>
                  if truthy (dict_get nd1 ''has_child'' (JBool False)) then
                    (case get_wiki_space_nodes env space_id node_token s1 of
                       None \<Rightarrow> None
                     | Some (Inl e, s2) \<Rightarrow>
                         Some (Inr (JObj (AList.update ''children_error''
                                            (JStr (str_of_error e)) nd1)), s2)
                     | Some (Inr children, s2) \<Rightarrow>
                         (case read_wiki_nodes_recursive env space_id children (depth + 1) s2 of
                            None \<Rightarrow> None
                          | Some (Inl e, s3) \<Rightarrow>
                              Some (Inr (JObj (AList.update ''children_error''
                                                 (JStr (str_of_error e)) nd1)), s3)
                          | Some (Inr children', s3) \<Rightarrow>
                              Some (Inr (JObj (AList.update ''children'' (JArr children') nd1)),
                                    s3)))
                  else Some (Inr (JObj nd1), s1)))"
  by pat_completeness auto
termination
  by (relation "inv_image (less_than <*lex*> less_than)
        (\<lambda>x. case x of
           Inl (env, space_id, nodes, depth, s) \<Rightarrow>
             (if depth > 5 then 0 else 3 * nat (6 - depth) + 3, 0)
         | Inr (Inl (env, space_id, nodes, depth, s)) \<Rightarrow> (3 * nat (6 - depth) + 2, length nodes)
         | Inr (Inr (env, space_id, node, depth, s)) \<Rightarrow> (3 * nat (6 - depth) + 1, 0))")
    auto

definition read_wiki_space ::
  "'w env \<Rightarrow> json \<Rightarrow> bool \<Rightarrow> 'w state \<Rightarrow> ((error + dict) \<times> 'w state) option" where
  "read_wiki_space env space_id recursive s =
     (case send env (Request (Wiki_Space space_id) []) s of
        (Inl e, s1) \<Rightarrow> Some (Inl e, s1)
      | (Inr space_info, s1) \<Rightarrow>
          (case get_wiki_space_nodes env space_id JNull s1 of
             None \<Rightarrow> None
           | Some (Inl e, s2) \<Rightarrow> Some (Inl e, s2)
           | Some (Inr listed, s2) \<Rightarrow>
               (case (if recursive then read_wiki_nodes_recursive env space_id listed 0 s2
                      else Some (Inr listed, s2)) of
                  None \<Rightarrow> None
                | Some (Inl e, s3) \<Rightarrow> Some (Inl e, s3)
                | Some (Inr nodes, s3) \<Rightarrow>
                    (case py_get space_info ''space'' (JObj []) of
                       Inl e \<Rightarrow> Some (Inl e, s3)
                     | Inr space \<Rightarrow>
                         Some (Inr [(''space'', space), (''nodes'', JArr nodes),
                                    (''node_count'', JInt (int (length nodes)))], s3)))))"

section \<open>Example environments\<close>

text \<open>
  A path extractor for the examples: it agrees with \<^verbatim>\<open>urlparse(url).path\<close> on a URL of
  the shape \<^verbatim>\<open>scheme://host/path?query#fragment\<close> whose path has no \<^verbatim>\<open>;\<close>. The
  offline environment answers every request with an exception.
\<close>

definition simple_url_path :: "string \<Rightarrow> error + string" where
  "simple_url_path url =
     Inr (takeWhile (\<lambda>c. c \<noteq> CHR ''?'' \<and> c \<noteq> CHR ''#'')
           (dropWhile (\<lambda>c. c \<noteq> CHR ''/'') (drop 2 (dropWhile (\<lambda>c. c \<noteq> CHR ''/'') url))))"

definition offline :: "request \<Rightarrow> unit \<Rightarrow> (error + json) \<times> unit" where
  "offline rq w = (Inl (Exception ''offline''), w)"

definition offline_env :: "unit env" where
  "offline_env = \<lparr>make_request = offline, extract_text_from_blocks = (\<lambda>blocks. Inr []),
     py_str = (\<lambda>x. []), urlparse_path = simple_url_path\<rparr>"

definition start :: "'w \<Rightarrow> 'w state" where
  "start w = \<lparr>world = w, logged = []\<rparr>"


text \<open>
  A page of a listing, and a platform that answers the requests from a script, one
  response after the other whatever the request; a platform that answers every
  request with the same response; the environment around a transport.
\<close>

record page =
  pg_items :: "json list"
  pg_has_more :: bool
  pg_cursor :: "string option"

definition page_json :: "page \<Rightarrow> json" where
  "page_json p =
     JObj ([(''items'', JArr (pg_items p)), (''has_more'', JBool (pg_has_more p))] @
           (case pg_cursor p of None \<Rightarrow> [] | Some c \<Rightarrow> [(''page_token'', JStr c)]))"

definition scripted :: "request \<Rightarrow> json list \<Rightarrow> (error + json) \<times> json list" where
  "scripted rq w =
     (case w of [] \<Rightarrow> (Inl (Exception ''no response left''), []) | r # rs \<Rightarrow> (Inr r, rs))"

definition env_of :: "(request \<Rightarrow> 'w \<Rightarrow> (error + json) \<times> 'w) \<Rightarrow> 'w env" where
  "env_of tr = \<lparr>make_request = tr, extract_text_from_blocks = (\<lambda>blocks. Inr []),
     py_str = (\<lambda>x. []), urlparse_path = simple_url_path\<rparr>"

definition repeating :: "json \<Rightarrow> request \<Rightarrow> unit \<Rightarrow> (error + json) \<times> unit" where
  "repeating response rq w = (Inr response, w)"

text \<open>A platform whose every answer is a page that reports \<open>has_more\<close>.\<close>

definition always_more :: "'w env \<Rightarrow> bool" where
  "always_more env =
     (\<forall>rq w. \<exists>d xs w'. make_request env rq w = (Inr (JObj d), w') \<and>
        truthy (dict_get d ''has_more'' (JBool False)) \<and>
        py_iter (dict_get d ''items'' (JArr [])) = Inr xs)"

definition page0 :: page where
  "page0 = \<lparr>pg_items = [JStr ''a''], pg_has_more = True, pg_cursor = Some ''c1''\<rparr>"

definition page1 :: page where
  "page1 = \<lparr>pg_items = [JStr ''b''], pg_has_more = True, pg_cursor = None\<rparr>"

definition page2 :: page where
  "page2 = \<lparr>pg_items = [JStr ''c''], pg_has_more = False, pg_cursor = None\<rparr>"

definition page500 :: page where
  "page500 = \<lparr>pg_items = replicate 500 (JObj [(''record_id'', JStr ''r'')]),
     pg_has_more = True, pg_cursor = Some ''next''\<rparr>"

text \<open>
  A platform that never ends a listing: every answer reports \<open>has_more\<close> with a
  list of at least one and at most \<open>n\<close> items.
\<close>

definition endless_pages :: "nat \<Rightarrow> 'w env \<Rightarrow> bool" where
  "endless_pages n env =
     (\<forall>rq w. \<exists>d xs w'. make_request env rq w = (Inr (JObj d), w') \<and>
        truthy (dict_get d ''has_more'' (JBool False)) \<and>
        dict_get d ''items'' (JArr []) = JArr xs \<and> xs \<noteq> [] \<and> length xs \<le> n)"

text \<open>
  A small wiki for the examples. The space has three root nodes, all documents, and the
  document of the second cannot be read; the children of no node can be listed. Node
  \<open>m\<close> wraps a mind map, for which there is no reader, and node \<open>p\<close> says it has
  children. The world counts the requests.
\<close>

definition node_of :: "string \<Rightarrow> string \<Rightarrow> bool \<Rightarrow> json" where
  "node_of token obj_type has_child =
     JObj [(''node_token'', JStr token), (''obj_type'', JStr obj_type),
           (''obj_token'', JStr (''obj_'' @ token)), (''has_child'', JBool has_child),
           (''space_id'', JStr ''space'')]"

definition small_wiki :: "request \<Rightarrow> nat \<Rightarrow> (error + json) \<times> nat" where
  "small_wiki rq n =
     (case rq of Request ep ps \<Rightarrow>
        (case ep of
           Docx_Document tok \<Rightarrow>
             if tok = JStr ''obj_b'' then Inl (Exception ''permission denied'')
             else Inr (JObj [(''document'', JObj [(''document_id'', tok)])])
         | Docx_Blocks tok \<Rightarrow> Inr (JObj [(''items'', JArr []), (''has_more'', JBool False)])
         | Wiki_Space_Nodes sp \<Rightarrow>
             (case map_of ps ''parent_node_token'' of
                None \<Rightarrow>
                  Inr (JObj [(''items'', JArr [node_of ''a'' ''docx'' False,
                                               node_of ''b'' ''docx'' False,
                                               node_of ''c'' ''docx'' False]),
                             (''has_more'', JBool False)])
              | Some parent \<Rightarrow> Inl (Exception ''children unavailable''))
         | Wiki_Get_Node \<Rightarrow>
             if map_of ps ''token'' = Some (JStr ''m'')
             then Inr (JObj [(''node'', node_of ''m'' ''mindnote'' False)])
             else if map_of ps ''token'' = Some (JStr ''p'')
             then Inr (JObj [(''node'', node_of ''p'' ''docx'' True)])
             else Inl (Exception ''not found'')
         | _ \<Rightarrow> Inl (Exception ''not found'')),
      n + 1)"

definition small_env :: "nat env" where
  "small_env = env_of small_wiki"

definition p_dict :: dict where
  "p_dict = [(''node_token'', JStr ''p''), (''obj_type'', JStr ''docx''),
             (''obj_token'', JStr ''obj_p''), (''has_child'', JBool True),
             (''space_id'', JStr ''space'')]"

definition p_content :: json where
  "p_content = JObj [(''document'', JObj [(''document_id'', JStr ''obj_p'')]),
                     (''blocks'', JArr []), (''text_content'', JStr [])]"

section \<open>Notions used in the statements about the traversal\<close>

text \<open>
  The reader that the traversal calls for a node of a given \<^verbatim>\<open>obj_type\<close>, if there is
  one: the calls inside the first \<^verbatim>\<open>try\<close> block, without the block.
\<close>

definition content_reader ::
  "'w env \<Rightarrow> json \<Rightarrow> (json \<Rightarrow> 'w state \<Rightarrow> ((error + dict) \<times> 'w state) option) option" where
  "content_reader env obj_type =
     (if obj_type = JStr ''docx'' \<or> obj_type = JStr ''doc'' then Some (read_docx env)
      else if obj_type = JStr ''sheet'' then Some (\<lambda>token s. Some (read_sheet env token s))
      else if obj_type = JStr ''bitable'' then Some (read_bitable env)
      else None)"

definition annotation_keys :: "string set" where
  "annotation_keys = {''content'', ''content_error'', ''children'', ''children_error''}"

text \<open>
  What the traversal of one node may change: \<open>annotated env d d' s\<close> says that \<open>d'\<close> is
  the node \<open>d\<close> with other values only under the four annotation keys, and that its
  \<^verbatim>\<open>content\<close> and \<^verbatim>\<open>content_error\<close> are what the read of its own content in the state \<open>s\<close>
  gives: the content when the reader returns it, the text of the exception when the
  reader raises, and nothing new when its type has no reader.
\<close>

definition annotated :: "'w env \<Rightarrow> dict \<Rightarrow> dict \<Rightarrow> 'w state \<Rightarrow> bool" where
  "annotated env d d' s =
     ((\<forall>k. k \<notin> annotation_keys \<longrightarrow> map_of d' k = map_of d k) \<and>
      (case content_reader env (dict_get d ''obj_type'' JNull) of
         None \<Rightarrow>
           map_of d' ''content'' = map_of d ''content'' \<and>
           map_of d' ''content_error'' = map_of d ''content_error''
       | Some rd \<Rightarrow>
           (case rd (dict_get d ''obj_token'' JNull) s of
              None \<Rightarrow> False
            | Some (Inr content, s1) \<Rightarrow>
                map_of d' ''content'' = Some (JObj content) \<and>
                map_of d' ''content_error'' = map_of d ''content_error''
            | Some (Inl e, s1) \<Rightarrow>
                map_of d' ''content_error'' = Some (JStr (str_of_error e)) \<and>
                map_of d' ''content'' = map_of d ''content'')))"

text \<open>
  \<open>listings_return env\<close> says that on the platform \<open>env\<close> every listing the traversal
  asks for ends: the blocks of a document, the records of a table and the nodes of a
  space or under a parent, whatever the token and the state of the world.
\<close>

definition listings_return :: "'w env \<Rightarrow> bool" where
  "listings_return env =
     ((\<forall>doc_token s. get_all_blocks env doc_token JNull s \<noteq> None) \<and>
      (\<forall>app_token table_id s. get_all_bitable_records env app_token table_id s \<noteq> None) \<and>
      (\<forall>space_id parent_token s. get_wiki_space_nodes env space_id parent_token s \<noteq> None))"

text \<open>The three root nodes of the small wiki, and what the traversal makes of them.\<close>

definition root_nodes :: "json list" where
  "root_nodes = [node_of ''a'' ''docx'' False, node_of ''b'' ''docx'' False,
                 node_of ''c'' ''docx'' False]"

definition root_nodes_read :: "json list" where
  "root_nodes_read =
     [JObj [(''node_token'', JStr ''a''), (''obj_type'', JStr ''docx''),
            (''obj_token'', JStr ''obj_a''), (''has_child'', JBool False),
            (''space_id'', JStr ''space''),
            (''content'', JObj [(''document'', JObj [(''document_id'', JStr ''obj_a'')]),
                                (''blocks'', JArr []), (''text_content'', JStr [])])],
      JObj [(''node_token'', JStr ''b''), (''obj_type'', JStr ''docx''),
            (''obj_token'', JStr ''obj_b''), (''has_child'', JBool False),
            (''space_id'', JStr ''space''),
            (''content_error'', JStr ''permission denied'')],
      JObj [(''node_token'', JStr ''c''), (''obj_type'', JStr ''docx''),
            (''obj_token'', JStr ''obj_c''), (''has_child'', JBool False),
            (''space_id'', JStr ''space''),
            (''content'', JObj [(''document'', JObj [(''document_id'', JStr ''obj_c'')]),
                                (''blocks'', JArr []), (''text_content'', JStr [])])]]"

text \<open>
  A node as the platform lists it has none of the four annotation keys;
  \<open>fresh_listings\<close> says so of every node of every answer of the node listing.
\<close>

definition annotation_free :: "json \<Rightarrow> bool" where
  "annotation_free n = (case n of JObj d \<Rightarrow> (\<forall>k\<in>annotation_keys. map_of d k = None) | _ \<Rightarrow> True)"

definition fresh_listings :: "'w env \<Rightarrow> bool" where
  "fresh_listings env =
     (\<forall>space_id params w data w' v xs.
        make_request env (Request (Wiki_Space_Nodes space_id) params) w = (Inr data, w') \<longrightarrow>
        py_get data ''items'' (JArr []) = Inr v \<longrightarrow> py_iter v = Inr xs \<longrightarrow>
        (\<forall>n\<in>set xs. annotation_free n))"

text \<open>
  The invariant of claim C9 on one node, the children a node carries, and the
  invariant on a node and on all nodes at most \<open>k\<close> levels below it.
\<close>

definition exclusive :: "json \<Rightarrow> bool" where
  "exclusive n =
     (case n of
        JObj d \<Rightarrow>
          \<not> (map_of d ''content'' \<noteq> None \<and> map_of d ''content_error'' \<noteq> None) \<and>
          \<not> (map_of d ''children'' \<noteq> None \<and> map_of d ''children_error'' \<noteq> None)
      | _ \<Rightarrow> True)"

definition children_of :: "json \<Rightarrow> json list" where
  "children_of n =
     (case n of
        JObj d \<Rightarrow> (case map_of d ''children'' of Some (JArr cs) \<Rightarrow> cs | _ \<Rightarrow> [])
      | _ \<Rightarrow> [])"

primrec exclusive_to :: "nat \<Rightarrow> json \<Rightarrow> bool" where
  "exclusive_to 0 n = exclusive n"
| "exclusive_to (Suc k) n = (exclusive n \<and> (\<forall>c\<in>set (children_of n). exclusive_to k c))"

text \<open>Three nodes of the small wiki, the last with children that cannot be listed.\<close>

definition mixed_nodes :: "json list" where
  "mixed_nodes = [node_of ''a'' ''docx'' False, node_of ''b'' ''docx'' False,
                  node_of ''p'' ''docx'' True]"

definition mixed_nodes_read :: "json list" where
  "mixed_nodes_read =
     [JObj [(''node_token'', JStr ''a''), (''obj_type'', JStr ''docx''),
            (''obj_token'', JStr ''obj_a''), (''has_child'', JBool False),
            (''space_id'', JStr ''space''),
            (''content'', JObj [(''document'', JObj [(''document_id'', JStr ''obj_a'')]),
                                (''blocks'', JArr []), (''text_content'', JStr [])])],
      JObj [(''node_token'', JStr ''b''), (''obj_type'', JStr ''docx''),
            (''obj_token'', JStr ''obj_b''), (''has_child'', JBool False),
            (''space_id'', JStr ''space''),
            (''content_error'', JStr ''permission denied'')],
      JObj [(''node_token'', JStr ''p''), (''obj_type'', JStr ''docx''),
            (''obj_token'', JStr ''obj_p''), (''has_child'', JBool True),
            (''space_id'', JStr ''space''),
            (''content'', JObj [(''document'', JObj [(''document_id'', JStr ''obj_p'')]),
                                (''blocks'', JArr []), (''text_content'', JStr [])]),
            (''children_error'', JStr ''children unavailable'')]]"

text \<open>
  A wiki whose listing gives one node that already carries a \<^verbatim>\<open>content\<close> entry, and
  whose document cannot be read. The world counts the requests.
\<close>

definition stale_node :: json where
  "stale_node =
     JObj [(''node_token'', JStr ''s''), (''obj_type'', JStr ''docx''),
           (''obj_token'', JStr ''obj_s''), (''has_child'', JBool False),
           (''content'', JStr ''cached'')]"

definition stale_wiki :: "request \<Rightarrow> nat \<Rightarrow> (error + json) \<times> nat" where
  "stale_wiki rq n =
     (case rq of Request ep ps \<Rightarrow>
        (case ep of
           Wiki_Space sp \<Rightarrow> Inr (JObj [(''space'', JObj [(''space_id'', sp)])])
         | Wiki_Space_Nodes sp \<Rightarrow>
             Inr (JObj [(''items'', JArr [stale_node]), (''has_more'', JBool False)])
         | _ \<Rightarrow> Inl (Exception ''permission denied'')),
      n + 1)"

definition stale_env :: "nat env" where
  "stale_env = env_of stale_wiki"

definition stale_node_read :: json where
  "stale_node_read =
     JObj [(''node_token'', JStr ''s''), (''obj_type'', JStr ''docx''),
           (''obj_token'', JStr ''obj_s''), (''has_child'', JBool False),
           (''content'', JStr ''cached''),
           (''content_error'', JStr ''permission denied'')]"










section \<open>Properties of type resolution\<close>

lemma startswith_prefix: "startswith s p = prefix p s"
  by (induction s p rule: startswith.induct) auto

lemma py_in_sublist: "py_in p s = sublist p s"
  by (induction s) (auto simp: startswith_prefix sublist_Cons_right)

lemma prefix_matches_sublist: "prefix_matches p t = sublist p t"
  by (auto simp: prefix_matches_def startswith_prefix py_in_sublist)

lemma split_not_Nil: "split sep s \<noteq> []"
  by (induction s) (auto split: list.splits)

lemma hd_split: "hd (split sep s) = takeWhile (\<lambda>c. c \<noteq> sep) s"
  by (induction s) (auto split: list.splits simp: split_not_Nil)

lemma before_query_takeWhile: "before_query s = takeWhile (\<lambda>c. c \<noteq> CHR ''?'') s"
  using hd_split[of "CHR ''?''" s] split_not_Nil[of "CHR ''?''" s]
  by (auto simp: before_query_def split: list.splits)

lemma concat_split: "concat (map (\<lambda>p. sep # p) (split sep s)) = sep # s"
  by (induction s) (auto split: list.splits simp: split_not_Nil)

lemma split_no_sep: "p \<in> set (split sep s) \<Longrightarrow> sep \<notin> set p"
  by (induction s arbitrary: p) (auto split: list.splits if_splits)

lemma after_marker_first:
  "m \<in> set url_markers \<Longrightarrow> \<forall>p\<in>set pre. p \<notin> set url_markers \<Longrightarrow>
   after_marker (pre @ m # seg # post) = Some (before_query seg)"
  by (induction pre) auto

lemma after_marker_none:
  "\<forall>p\<in>set parts. p \<notin> set url_markers \<Longrightarrow> after_marker parts = None"
  by (induction parts) auto

lemma find_last_nonempty:
  "seg \<noteq> [] \<Longrightarrow> \<forall>p\<in>set post. p = [] \<Longrightarrow>
   find (\<lambda>part. part \<noteq> []) (rev (pre @ seg # post)) = Some seg"
  by (induction post rule: rev_induct) auto

lemma match_prefix_first:
  "i < length tbl \<Longrightarrow> prefix_matches (fst (tbl ! i)) t \<Longrightarrow>
   \<forall>j<i. \<not> prefix_matches (fst (tbl ! j)) t \<Longrightarrow> match_prefix tbl t = Some (snd (tbl ! i))"
proof (induction tbl arbitrary: i)
  case Nil
  then show ?case by simp
next
  case (Cons a tbl)
  obtain p k where a: "a = (p, k)" by (cases a)
  show ?case
  proof (cases i)
    case 0
    with Cons.prems a show ?thesis by simp
  next
    case (Suc n)
    with Cons.prems have "\<not> prefix_matches p t" using a by auto
    moreover have "\<forall>j<n. \<not> prefix_matches (fst (tbl ! j)) t"
    proof (intro allI impI)
      fix j assume "j < n"
      then have "Suc j < i" using Suc by simp
      with Cons.prems(3) have "\<not> prefix_matches (fst ((a # tbl) ! Suc j)) t" by blast
      then show "\<not> prefix_matches (fst (tbl ! j)) t" by simp
    qed
    then have "match_prefix tbl t = Some (snd (tbl ! n))"
      using Cons.IH[of n] Cons.prems Suc by auto
    ultimately show ?thesis using a Suc by simp
  qed
qed

lemma match_prefix_none:
  "\<forall>p\<in>set tbl. \<not> prefix_matches (fst p) t \<Longrightarrow> match_prefix tbl t = None"
  by (induction tbl) auto


lemma prefix_matches_lib: "prefix_matches p t = (prefix p t \<or> sublist p t)"
  by (auto simp: prefix_matches_sublist)

text \<open>
  Claim C7. A raw token is an identifier that does not start with \<^verbatim>\<open>http\<close>. If the
  \<open>i\<close>-th prefix of \<^verbatim>\<open>TOKEN_PREFIXES\<close> (in the order docx_, doc_, sheet_, shtcn, base,
  bascn, wikcn) is the first one the token starts with or contains, type resolution
  returns the kind of that prefix with the token, and logs nothing. If the token
  starts with or contains none of them, it returns docx with the token unchanged and
  logs one warning. In every case the result is a value, never an exception.
\<close>

theorem detect_type_raw_token:
  assumes "\<not> prefix ''http'' token"
  shows "(\<forall>i<length TOKEN_PREFIXES.
            (prefix (fst (TOKEN_PREFIXES ! i)) token \<or> sublist (fst (TOKEN_PREFIXES ! i)) token) \<and>
            (\<forall>j<i. \<not> (prefix (fst (TOKEN_PREFIXES ! j)) token \<or> sublist (fst (TOKEN_PREFIXES ! j)) token))
            \<longrightarrow> detect_type env token s = (Inr (snd (TOKEN_PREFIXES ! i), token), s))
       \<and> ((\<forall>i<length TOKEN_PREFIXES.
              \<not> (prefix (fst (TOKEN_PREFIXES ! i)) token \<or> sublist (fst (TOKEN_PREFIXES ! i)) token))
            \<longrightarrow> detect_type env token s = (Inr (TYPE_DOCX, token), logger (Warn_Unknown_Token token) s))
       \<and> (\<exists>kind s'. detect_type env token s = (Inr (kind, token), s'))"
proof (intro conjI allI impI)
  fix i
  assume i: "i < length TOKEN_PREFIXES"
    and m: "(prefix (fst (TOKEN_PREFIXES ! i)) token \<or> sublist (fst (TOKEN_PREFIXES ! i)) token) \<and>
            (\<forall>j<i. \<not> (prefix (fst (TOKEN_PREFIXES ! j)) token \<or> sublist (fst (TOKEN_PREFIXES ! j)) token))"
  have "match_prefix TOKEN_PREFIXES token = Some (snd (TOKEN_PREFIXES ! i))"
    using i m by (intro match_prefix_first) (auto simp: prefix_matches_lib)
  then show "detect_type env token s = (Inr (snd (TOKEN_PREFIXES ! i), token), s)"
    using assms by (simp add: detect_type_def startswith_prefix)
next
  assume "\<forall>i<length TOKEN_PREFIXES.
              \<not> (prefix (fst (TOKEN_PREFIXES ! i)) token \<or> sublist (fst (TOKEN_PREFIXES ! i)) token)"
  then have "\<forall>p\<in>set TOKEN_PREFIXES. \<not> prefix_matches (fst p) token"
    by (metis in_set_conv_nth prefix_matches_lib)
  then have "match_prefix TOKEN_PREFIXES token = None"
    by (rule match_prefix_none)
  then show "detect_type env token s = (Inr (TYPE_DOCX, token), logger (Warn_Unknown_Token token) s)"
    using assms by (simp add: detect_type_def startswith_prefix)
next
  show "\<exists>kind s'. detect_type env token s = (Inr (kind, token), s')"
    using assms by (auto simp: detect_type_def startswith_prefix split: option.splits)
qed

lemma TOKEN_PREFIXES_nth:
  "TOKEN_PREFIXES ! 0 = (''docx_'', ''docx'')"
  "TOKEN_PREFIXES ! 1 = (''doc_'', ''doc'')"
  "TOKEN_PREFIXES ! 2 = (''sheet_'', ''sheet'')"
  "TOKEN_PREFIXES ! 3 = (''shtcn'', ''sheet'')"
  "TOKEN_PREFIXES ! 4 = (''base'', ''bitable'')"
  "TOKEN_PREFIXES ! 5 = (''bascn'', ''bitable'')"
  "TOKEN_PREFIXES ! 6 = (''wikcn'', ''wiki'')"
  "length TOKEN_PREFIXES = 7"
  by (simp_all add: TOKEN_PREFIXES_def TYPE_DOCX_def TYPE_DOC_def TYPE_SHEET_def
      TYPE_BITABLE_def TYPE_WIKI_def)

lemma sublist_eval: "sublist p t = py_in p t"
  by (simp add: py_in_sublist)

lemma prefix_eval: "prefix p t = startswith t p"
  by (simp add: startswith_prefix)

theorem detect_type_raw_token_witness:
  "\<not> prefix ''http'' ''my_sheet_base1''
   \<and> detect_type offline_env ''my_sheet_base1'' (start ()) = (Inr (''sheet'', ''my_sheet_base1''), start ())
   \<and> \<not> prefix ''http'' ''abc123''
   \<and> detect_type offline_env ''abc123'' (start ())
       = (Inr (''docx'', ''abc123''), logger (Warn_Unknown_Token ''abc123'') (start ()))"
proof -
  have h1: "\<not> prefix ''http'' ''my_sheet_base1''" by simp
  have h2: "\<not> prefix ''http'' ''abc123''" by simp
  have m: "(prefix (fst (TOKEN_PREFIXES ! 2)) ''my_sheet_base1'' \<or> sublist (fst (TOKEN_PREFIXES ! 2)) ''my_sheet_base1'') \<and>
     (\<forall>j<2. \<not> (prefix (fst (TOKEN_PREFIXES ! j)) ''my_sheet_base1'' \<or> sublist (fst (TOKEN_PREFIXES ! j)) ''my_sheet_base1''))"
    by (simp add: TOKEN_PREFIXES_def sublist_eval prefix_eval less_Suc_eq numeral_2_eq_2)
  have n: "\<forall>i<length TOKEN_PREFIXES.
     \<not> (prefix (fst (TOKEN_PREFIXES ! i)) ''abc123'' \<or> sublist (fst (TOKEN_PREFIXES ! i)) ''abc123'')"
    by (simp add: TOKEN_PREFIXES_def sublist_eval prefix_eval less_Suc_eq all_conj_distrib)
  have l: "2 < length TOKEN_PREFIXES" by (simp add: TOKEN_PREFIXES_def)
  have "detect_type offline_env ''my_sheet_base1'' (start ()) = (Inr (snd (TOKEN_PREFIXES ! 2), ''my_sheet_base1''), start ())"
    using detect_type_raw_token[OF h1, of offline_env "start ()", THEN conjunct1, rule_format, OF l m] .
  then have "detect_type offline_env ''my_sheet_base1'' (start ()) = (Inr (''sheet'', ''my_sheet_base1''), start ())"
    by (simp add: TOKEN_PREFIXES_nth)
  moreover have "detect_type offline_env ''abc123'' (start ())
       = (Inr (TYPE_DOCX, ''abc123''), logger (Warn_Unknown_Token ''abc123'') (start ()))"
    using detect_type_raw_token[OF h2, of offline_env "start ()", THEN conjunct2, THEN conjunct1, THEN mp, OF n] .
  then have "detect_type offline_env ''abc123'' (start ())
       = (Inr (''docx'', ''abc123''), logger (Warn_Unknown_Token ''abc123'') (start ()))"
    by (simp add: TYPE_DOCX_def)
  ultimately show ?thesis using h1 h2 by blast
qed

text \<open>
  Claim C8. Let the path of the URL be split at \<^verbatim>\<open>/\<close>. If a marker segment (docx, doc,
  wiki, sheets, base, file) with no marker before it is followed by a segment, the
  token is that following segment up to its first \<^verbatim>\<open>?\<close>. If no segment is a marker, the
  token is the last non-empty segment up to its first \<^verbatim>\<open>?\<close>.
\<close>

theorem extract_token_from_url_segment:
  assumes "urlparse_path env url = Inr path"
  shows "(split CHR ''/'' path = pre @ marker # seg # post \<and> marker \<in> set url_markers \<and>
          (\<forall>p\<in>set pre. p \<notin> set url_markers)
          \<longrightarrow> extract_token_from_url env url = Inr (takeWhile (\<lambda>c. c \<noteq> CHR ''?'') seg))
       \<and> ((\<forall>p\<in>set (split CHR ''/'' path). p \<notin> set url_markers) \<and>
          split CHR ''/'' path = pre' @ seg' # post' \<and> seg' \<noteq> [] \<and> (\<forall>p\<in>set post'. p = [])
          \<longrightarrow> extract_token_from_url env url = Inr (takeWhile (\<lambda>c. c \<noteq> CHR ''?'') seg'))"
proof (intro conjI impI)
  assume h: "split CHR ''/'' path = pre @ marker # seg # post \<and> marker \<in> set url_markers \<and>
          (\<forall>p\<in>set pre. p \<notin> set url_markers)"
  then have "after_marker (split CHR ''/'' path) = Some (before_query seg)"
    by (simp add: after_marker_first)
  then show "extract_token_from_url env url = Inr (takeWhile (\<lambda>c. c \<noteq> CHR ''?'') seg)"
    using assms by (simp add: extract_token_from_url_def before_query_takeWhile)
next
  assume h: "(\<forall>p\<in>set (split CHR ''/'' path). p \<notin> set url_markers) \<and>
          split CHR ''/'' path = pre' @ seg' # post' \<and> seg' \<noteq> [] \<and> (\<forall>p\<in>set post'. p = [])"
  then have "after_marker (split CHR ''/'' path) = None"
    by (intro after_marker_none) blast
  moreover have "find (\<lambda>part. part \<noteq> []) (rev (split CHR ''/'' path)) = Some seg'"
    using h find_last_nonempty[of seg' post' pre'] by simp
  ultimately show "extract_token_from_url env url = Inr (takeWhile (\<lambda>c. c \<noteq> CHR ''?'') seg')"
    using assms by (simp add: extract_token_from_url_def before_query_takeWhile)
qed

lemma simple_url_path_docx:
  "simple_url_path ''https://xxx.feishu.cn/docx/abc123?tab=x'' = Inr ''/docx/abc123''"
  by (simp add: simple_url_path_def)

lemma simple_url_path_home:
  "simple_url_path ''https://xxx.feishu.cn/space/home/'' = Inr ''/space/home/''"
  by (simp add: simple_url_path_def)

theorem extract_token_from_url_segment_witness:
  "urlparse_path offline_env ''https://xxx.feishu.cn/docx/abc123?tab=x'' = Inr ''/docx/abc123''
   \<and> split CHR ''/'' ''/docx/abc123'' = [[]] @ ''docx'' # ''abc123'' # []
   \<and> ''docx'' \<in> set url_markers
   \<and> extract_token_from_url offline_env ''https://xxx.feishu.cn/docx/abc123?tab=x'' = Inr ''abc123''
   \<and> urlparse_path offline_env ''https://xxx.feishu.cn/space/home/'' = Inr ''/space/home/''
   \<and> split CHR ''/'' ''/space/home/'' = [[], ''space''] @ ''home'' # [[]]
   \<and> extract_token_from_url offline_env ''https://xxx.feishu.cn/space/home/'' = Inr ''home''"
proof -
  have p1: "urlparse_path offline_env ''https://xxx.feishu.cn/docx/abc123?tab=x'' = Inr ''/docx/abc123''"
    by (simp add: offline_env_def simple_url_path_docx)
  have s1: "split CHR ''/'' ''/docx/abc123'' = [[]] @ ''docx'' # ''abc123'' # []"
    by simp
  have m1: "''docx'' \<in> set url_markers"
    by (simp add: url_markers_def)
  have n1: "\<forall>p\<in>set [[]]. p \<notin> set url_markers"
    by (simp add: url_markers_def)
  have "extract_token_from_url offline_env ''https://xxx.feishu.cn/docx/abc123?tab=x''
        = Inr (takeWhile (\<lambda>c. c \<noteq> CHR ''?'') ''abc123'')"
    using extract_token_from_url_segment[OF p1, THEN conjunct1, THEN mp, of "[[]]" "''docx''" "''abc123''" "[]"]
      s1 m1 n1 by blast
  then have r1: "extract_token_from_url offline_env ''https://xxx.feishu.cn/docx/abc123?tab=x'' = Inr ''abc123''"
    by simp
  have p2: "urlparse_path offline_env ''https://xxx.feishu.cn/space/home/'' = Inr ''/space/home/''"
    by (simp add: offline_env_def simple_url_path_home)
  have s2: "split CHR ''/'' ''/space/home/'' = [[], ''space''] @ ''home'' # [[]]"
    by simp
  have n2: "\<forall>p\<in>set (split CHR ''/'' ''/space/home/''). p \<notin> set url_markers"
    by (simp add: url_markers_def)
  have e2: "''home'' \<noteq> [] \<and> (\<forall>p\<in>set [[]]. p = ([]::string))"
    by simp
  have "extract_token_from_url offline_env ''https://xxx.feishu.cn/space/home/''
        = Inr (takeWhile (\<lambda>c. c \<noteq> CHR ''?'') ''home'')"
    using extract_token_from_url_segment[OF p2, THEN conjunct2, THEN mp, of "[[], ''space'']" "''home''" "[[]]"]
      s2 n2 e2 by blast
  then have r2: "extract_token_from_url offline_env ''https://xxx.feishu.cn/space/home/'' = Inr ''home''"
    by simp
  show ?thesis using p1 s1 m1 r1 p2 s2 r2 by blast
qed

text \<open>
  Claim C10. For a URL, the kind is the prefix class of the extracted token, as for a
  raw token: the kind of the first prefix of \<^verbatim>\<open>TOKEN_PREFIXES\<close> the extracted token starts
  with or contains, and docx with a warning when there is none; an exception of the
  extraction is the result. The marker only locates the token: when the segment \<open>T\<close>
  after the first marker (docx, sheets, wiki, ...) starts with or contains a known
  prefix, resolution returns the kind of the first such prefix, whatever the marker,
  and when it starts with or contains none, resolution returns docx with \<open>T\<close> and
  the warning, not the kind the marker names. Two URLs with the same extracted token
  resolve to the same kind and token, whatever their markers.
\<close>

theorem detect_type_url_by_token_only:
  assumes "prefix ''http'' url"
  shows "(prefix ''http'' url' \<and> extract_token_from_url env url' = extract_token_from_url env url
          \<longrightarrow> fst (detect_type env url' s) = fst (detect_type env url s))
       \<and> (urlparse_path env url = Inr path \<and> split CHR ''/'' path = pre @ marker # T # post \<and>
          marker \<in> set url_markers \<and> (\<forall>p\<in>set pre. p \<notin> set url_markers) \<and>
          CHR ''?'' \<notin> set T \<and>
          (\<forall>i<length TOKEN_PREFIXES.
              \<not> (prefix (fst (TOKEN_PREFIXES ! i)) T \<or> sublist (fst (TOKEN_PREFIXES ! i)) T))
          \<longrightarrow> detect_type env url s = (Inr (TYPE_DOCX, T), logger (Warn_Unknown_Token T) s))
       \<and> (urlparse_path env url = Inr path \<and> split CHR ''/'' path = pre @ marker # T # post \<and>
          marker \<in> set url_markers \<and> (\<forall>p\<in>set pre. p \<notin> set url_markers) \<and>
          CHR ''?'' \<notin> set T \<and> k < length TOKEN_PREFIXES \<and>
          (prefix (fst (TOKEN_PREFIXES ! k)) T \<or> sublist (fst (TOKEN_PREFIXES ! k)) T) \<and>
          (\<forall>j<k. \<not> (prefix (fst (TOKEN_PREFIXES ! j)) T \<or> sublist (fst (TOKEN_PREFIXES ! j)) T))
          \<longrightarrow> detect_type env url s = (Inr (snd (TOKEN_PREFIXES ! k), T), s))
       \<and> (extract_token_from_url env url = Inr token \<and> k < length TOKEN_PREFIXES \<and>
          (prefix (fst (TOKEN_PREFIXES ! k)) token \<or> sublist (fst (TOKEN_PREFIXES ! k)) token) \<and>
          (\<forall>j<k. \<not> (prefix (fst (TOKEN_PREFIXES ! j)) token \<or>
                     sublist (fst (TOKEN_PREFIXES ! j)) token))
          \<longrightarrow> detect_type env url s = (Inr (snd (TOKEN_PREFIXES ! k), token), s))
       \<and> (extract_token_from_url env url = Inr token \<and>
          (\<forall>i<length TOKEN_PREFIXES.
              \<not> (prefix (fst (TOKEN_PREFIXES ! i)) token \<or> sublist (fst (TOKEN_PREFIXES ! i)) token))
          \<longrightarrow> detect_type env url s
                = (Inr (TYPE_DOCX, token), logger (Warn_Unknown_Token token) s))
       \<and> (extract_token_from_url env url = Inl e \<longrightarrow> detect_type env url s = (Inl e, s))"
proof (intro conjI impI)
  assume "prefix ''http'' url' \<and> extract_token_from_url env url' = extract_token_from_url env url"
  then show "fst (detect_type env url' s) = fst (detect_type env url s)"
    using assms
    by (auto simp: detect_type_def startswith_prefix split: sum.splits option.splits)
next
  assume h: "urlparse_path env url = Inr path \<and> split CHR ''/'' path = pre @ marker # T # post \<and>
          marker \<in> set url_markers \<and> (\<forall>p\<in>set pre. p \<notin> set url_markers) \<and>
          CHR ''?'' \<notin> set T \<and>
          (\<forall>i<length TOKEN_PREFIXES.
              \<not> (prefix (fst (TOKEN_PREFIXES ! i)) T \<or> sublist (fst (TOKEN_PREFIXES ! i)) T))"
  then have "after_marker (split CHR ''/'' path) = Some (before_query T)"
    by (simp add: after_marker_first)
  moreover have "before_query T = T"
    using h by (auto simp: before_query_takeWhile takeWhile_eq_all_conv)
  ultimately have t: "extract_token_from_url env url = Inr T"
    using h by (simp add: extract_token_from_url_def)
  have "\<forall>p\<in>set TOKEN_PREFIXES. \<not> prefix_matches (fst p) T"
    using h by (metis in_set_conv_nth prefix_matches_lib)
  then have "match_prefix TOKEN_PREFIXES T = None"
    by (rule match_prefix_none)
  with t show "detect_type env url s = (Inr (TYPE_DOCX, T), logger (Warn_Unknown_Token T) s)"
    using assms by (simp add: detect_type_def startswith_prefix)
next
  assume h: "urlparse_path env url = Inr path \<and> split CHR ''/'' path = pre @ marker # T # post \<and>
          marker \<in> set url_markers \<and> (\<forall>p\<in>set pre. p \<notin> set url_markers) \<and>
          CHR ''?'' \<notin> set T \<and> k < length TOKEN_PREFIXES \<and>
          (prefix (fst (TOKEN_PREFIXES ! k)) T \<or> sublist (fst (TOKEN_PREFIXES ! k)) T) \<and>
          (\<forall>j<k. \<not> (prefix (fst (TOKEN_PREFIXES ! j)) T \<or> sublist (fst (TOKEN_PREFIXES ! j)) T))"
  then have "after_marker (split CHR ''/'' path) = Some (before_query T)"
    by (simp add: after_marker_first)
  moreover have "before_query T = T"
    using h by (auto simp: before_query_takeWhile takeWhile_eq_all_conv)
  ultimately have t: "extract_token_from_url env url = Inr T"
    using h by (simp add: extract_token_from_url_def)
  have "match_prefix TOKEN_PREFIXES T = Some (snd (TOKEN_PREFIXES ! k))"
    using h by (intro match_prefix_first) (auto simp: prefix_matches_lib)
  with t show "detect_type env url s = (Inr (snd (TOKEN_PREFIXES ! k), T), s)"
    using assms by (simp add: detect_type_def startswith_prefix)
next
  assume h: "extract_token_from_url env url = Inr token \<and> k < length TOKEN_PREFIXES \<and>
          (prefix (fst (TOKEN_PREFIXES ! k)) token \<or> sublist (fst (TOKEN_PREFIXES ! k)) token) \<and>
          (\<forall>j<k. \<not> (prefix (fst (TOKEN_PREFIXES ! j)) token \<or>
                     sublist (fst (TOKEN_PREFIXES ! j)) token))"
  have "match_prefix TOKEN_PREFIXES token = Some (snd (TOKEN_PREFIXES ! k))"
    using h by (intro match_prefix_first) (auto simp: prefix_matches_lib)
  with h show "detect_type env url s = (Inr (snd (TOKEN_PREFIXES ! k), token), s)"
    using assms by (simp add: detect_type_def startswith_prefix)
next
  assume h: "extract_token_from_url env url = Inr token \<and>
          (\<forall>i<length TOKEN_PREFIXES.
              \<not> (prefix (fst (TOKEN_PREFIXES ! i)) token \<or> sublist (fst (TOKEN_PREFIXES ! i)) token))"
  then have "\<forall>p\<in>set TOKEN_PREFIXES. \<not> prefix_matches (fst p) token"
    by (metis in_set_conv_nth prefix_matches_lib)
  then have "match_prefix TOKEN_PREFIXES token = None"
    by (rule match_prefix_none)
  with h show "detect_type env url s
                = (Inr (TYPE_DOCX, token), logger (Warn_Unknown_Token token) s)"
    using assms by (simp add: detect_type_def startswith_prefix)
next
  assume "extract_token_from_url env url = Inl e"
  then show "detect_type env url s = (Inl e, s)"
    using assms by (simp add: detect_type_def startswith_prefix)
qed

lemma simple_url_path_sheets:
  "simple_url_path ''https://xxx.feishu.cn/sheets/Abc123'' = Inr ''/sheets/Abc123''"
  by (simp add: simple_url_path_def)

lemma simple_url_path_wiki:
  "simple_url_path ''https://xxx.feishu.cn/wiki/Abc123'' = Inr ''/wiki/Abc123''"
  by (simp add: simple_url_path_def)

lemma simple_url_path_docx_wikcn:
  "simple_url_path ''https://xxx.feishu.cn/docx/wikcnABC'' = Inr ''/docx/wikcnABC''"
  by (simp add: simple_url_path_def)

text \<open>A path extractor that raises on every input, as \<^verbatim>\<open>urlparse\<close> does on some.\<close>

lemma extract_token_from_url_raises:
  "extract_token_from_url (offline_env\<lparr>urlparse_path := (\<lambda>url. Inl (ValueError ''Invalid URL''))\<rparr>)
     url = Inl (ValueError ''Invalid URL'')"
  by (simp add: extract_token_from_url_def)

theorem detect_type_url_by_token_only_witness:
  "prefix ''http'' ''https://xxx.feishu.cn/sheets/Abc123''
   \<and> prefix ''http'' ''https://xxx.feishu.cn/wiki/Abc123''
   \<and> extract_token_from_url offline_env ''https://xxx.feishu.cn/wiki/Abc123''
       = extract_token_from_url offline_env ''https://xxx.feishu.cn/sheets/Abc123''
   \<and> fst (detect_type offline_env ''https://xxx.feishu.cn/wiki/Abc123'' (start ()))
       = fst (detect_type offline_env ''https://xxx.feishu.cn/sheets/Abc123'' (start ()))
   \<and> urlparse_path offline_env ''https://xxx.feishu.cn/sheets/Abc123'' = Inr ''/sheets/Abc123''
   \<and> split CHR ''/'' ''/sheets/Abc123'' = [[]] @ ''sheets'' # ''Abc123'' # []
   \<and> detect_type offline_env ''https://xxx.feishu.cn/sheets/Abc123'' (start ())
       = (Inr (''docx'', ''Abc123''), logger (Warn_Unknown_Token ''Abc123'') (start ()))
   \<and> prefix ''http'' ''https://xxx.feishu.cn/docx/wikcnABC''
   \<and> urlparse_path offline_env ''https://xxx.feishu.cn/docx/wikcnABC'' = Inr ''/docx/wikcnABC''
   \<and> split CHR ''/'' ''/docx/wikcnABC'' = [[]] @ ''docx'' # ''wikcnABC'' # []
   \<and> extract_token_from_url offline_env ''https://xxx.feishu.cn/docx/wikcnABC'' = Inr ''wikcnABC''
   \<and> detect_type offline_env ''https://xxx.feishu.cn/docx/wikcnABC'' (start ())
       = (Inr (''wiki'', ''wikcnABC''), start ())
   \<and> extract_token_from_url offline_env ''https://xxx.feishu.cn/sheets/Abc123'' = Inr ''Abc123''
   \<and> extract_token_from_url
        (offline_env\<lparr>urlparse_path := (\<lambda>url. Inl (ValueError ''Invalid URL''))\<rparr>)
        ''http://[bad'' = Inl (ValueError ''Invalid URL'')
   \<and> detect_type (offline_env\<lparr>urlparse_path := (\<lambda>url. Inl (ValueError ''Invalid URL''))\<rparr>)
        ''http://[bad'' (start ())
       = (Inl (ValueError ''Invalid URL''), start ())"
proof -
  let ?u = "''https://xxx.feishu.cn/sheets/Abc123''"
  let ?v = "''https://xxx.feishu.cn/wiki/Abc123''"
  let ?w = "''https://xxx.feishu.cn/docx/wikcnABC''"
  let ?bad = "offline_env\<lparr>urlparse_path := (\<lambda>url. Inl (ValueError ''Invalid URL''))\<rparr>"
  have hu: "prefix ''http'' ?u" and hv: "prefix ''http'' ?v" and hw: "prefix ''http'' ?w"
    and hb: "prefix ''http'' ''http://[bad''"
    by simp_all
  have pu: "urlparse_path offline_env ?u = Inr ''/sheets/Abc123''"
    by (simp add: offline_env_def simple_url_path_sheets)
  have pv: "urlparse_path offline_env ?v = Inr ''/wiki/Abc123''"
    by (simp add: offline_env_def simple_url_path_wiki)
  have pw: "urlparse_path offline_env ?w = Inr ''/docx/wikcnABC''"
    by (simp add: offline_env_def simple_url_path_docx_wikcn)
  have su: "split CHR ''/'' ''/sheets/Abc123'' = [[]] @ ''sheets'' # ''Abc123'' # []"
    by simp
  have sw: "split CHR ''/'' ''/docx/wikcnABC'' = [[]] @ ''docx'' # ''wikcnABC'' # []"
    by simp
  have eu: "extract_token_from_url offline_env ?u = Inr ''Abc123''"
    by (simp add: extract_token_from_url_def pu url_markers_def before_query_def)
  have ew: "extract_token_from_url offline_env ?w = Inr ''wikcnABC''"
    by (simp add: extract_token_from_url_def pw url_markers_def before_query_def)
  have e: "extract_token_from_url offline_env ?v = extract_token_from_url offline_env ?u"
    by (simp add: extract_token_from_url_def pu pv url_markers_def before_query_def)
  have same: "fst (detect_type offline_env ?v (start ())) = fst (detect_type offline_env ?u (start ()))"
    using detect_type_url_by_token_only[OF hu, THEN conjunct1, THEN mp, of ?v offline_env "start ()"] hv e
    by blast
  have none: "\<forall>i<length TOKEN_PREFIXES.
          \<not> (prefix (fst (TOKEN_PREFIXES ! i)) ''Abc123'' \<or> sublist (fst (TOKEN_PREFIXES ! i)) ''Abc123'')"
    by (simp add: TOKEN_PREFIXES_def sublist_eval prefix_eval less_Suc_eq all_conj_distrib)
  have side: "''sheets'' \<in> set url_markers \<and> (\<forall>p\<in>set [[]]. p \<notin> set url_markers) \<and>
      CHR ''?'' \<notin> set ''Abc123'' \<and>
      (\<forall>i<length TOKEN_PREFIXES.
          \<not> (prefix (fst (TOKEN_PREFIXES ! i)) ''Abc123'' \<or> sublist (fst (TOKEN_PREFIXES ! i)) ''Abc123''))"
    using none by (simp add: url_markers_def)
  have "detect_type offline_env ?u (start ())
        = (Inr (TYPE_DOCX, ''Abc123''), logger (Warn_Unknown_Token ''Abc123'') (start ()))"
    using detect_type_url_by_token_only[OF hu, THEN conjunct2, THEN conjunct1, THEN mp,
        of offline_env "''/sheets/Abc123''" "[[]]" "''sheets''" "''Abc123''" "[]" "start ()"]
      pu su side by blast
  then have r: "detect_type offline_env ?u (start ())
        = (Inr (''docx'', ''Abc123''), logger (Warn_Unknown_Token ''Abc123'') (start ()))"
    by (simp add: TYPE_DOCX_def)
  have r': "detect_type offline_env ?u (start ())
        = (Inr (TYPE_DOCX, ''Abc123''), logger (Warn_Unknown_Token ''Abc123'') (start ()))"
    using detect_type_url_by_token_only[OF hu, THEN conjunct2, THEN conjunct2, THEN conjunct2,
        THEN conjunct2, THEN conjunct1, THEN mp, OF conjI[OF eu none]] .
  have six: "6 < length TOKEN_PREFIXES" by (simp add: TOKEN_PREFIXES_def)
  have m: "(prefix (fst (TOKEN_PREFIXES ! 6)) ''wikcnABC'' \<or> sublist (fst (TOKEN_PREFIXES ! 6)) ''wikcnABC'')"
    by (simp add: TOKEN_PREFIXES_def sublist_eval prefix_eval)
  have f: "\<forall>j<6. \<not> (prefix (fst (TOKEN_PREFIXES ! j)) ''wikcnABC'' \<or>
                     sublist (fst (TOKEN_PREFIXES ! j)) ''wikcnABC'')"
    by (simp add: TOKEN_PREFIXES_def sublist_eval prefix_eval less_Suc_eq all_conj_distrib
        eval_nat_numeral)
  have mk: "''docx'' \<in> set url_markers" "\<forall>p\<in>set [[]]. p \<notin> set url_markers"
    "CHR ''?'' \<notin> set ''wikcnABC''"
    by (simp_all add: url_markers_def)
  have "detect_type offline_env ?w (start ()) = (Inr (snd (TOKEN_PREFIXES ! 6), ''wikcnABC''), start ())"
    using detect_type_url_by_token_only[OF hw, THEN conjunct2, THEN conjunct2, THEN conjunct1,
        THEN mp,
        OF conjI[OF pw conjI[OF sw conjI[OF mk(1) conjI[OF mk(2) conjI[OF mk(3)
             conjI[OF six conjI[OF m f]]]]]]]] .
  then have wk: "detect_type offline_env ?w (start ()) = (Inr (''wiki'', ''wikcnABC''), start ())"
    by (simp add: TOKEN_PREFIXES_nth)
  have "detect_type offline_env ?w (start ()) = (Inr (snd (TOKEN_PREFIXES ! 6), ''wikcnABC''), start ())"
    using detect_type_url_by_token_only[OF hw, THEN conjunct2, THEN conjunct2, THEN conjunct2,
        THEN conjunct1, THEN mp, OF conjI[OF ew conjI[OF six conjI[OF m f]]]] .
  have xb: "extract_token_from_url ?bad ''http://[bad'' = Inl (ValueError ''Invalid URL'')"
    by (rule extract_token_from_url_raises)
  have bad: "detect_type ?bad ''http://[bad'' (start ()) = (Inl (ValueError ''Invalid URL''), start ())"
    using detect_type_url_by_token_only[OF hb, THEN conjunct2, THEN conjunct2, THEN conjunct2,
        THEN conjunct2, THEN conjunct2, THEN mp, OF xb] .
  show ?thesis
    using hu hv e same pu su r hw pw sw ew wk eu xb bad by blast
qed

section \<open>Properties of the paginated listings\<close>

lemma send_scripted:
  "make_request env = scripted \<Longrightarrow> world s = r # rs \<Longrightarrow>
   send env rq s = (Inr r, s\<lparr>world := rs\<rparr>)"
  by (simp add: send_def scripted_def)

lemma page_json_get:
  "dict_get (case page_json p of JObj d \<Rightarrow> d | _ \<Rightarrow> []) ''items'' dflt = JArr (pg_items p)"
  "dict_get (case page_json p of JObj d \<Rightarrow> d | _ \<Rightarrow> []) ''has_more'' dflt = JBool (pg_has_more p)"
  by (simp_all add: page_json_def dict_get_def)

lemma py_get_page_json:
  "py_get (page_json p) ''items'' dflt = Inr (JArr (pg_items p))"
  "py_get (page_json p) ''has_more'' dflt = Inr (JBool (pg_has_more p))"
  "\<exists>t. py_get (page_json p) ''page_token'' dflt = Inr t"
  by (simp_all add: page_json_def dict_get_def)

lemma get_all_blocks_loop_scripted:
  "make_request env = scripted \<Longrightarrow> \<forall>p\<in>set ps. pg_has_more p \<Longrightarrow> \<not> pg_has_more q \<Longrightarrow>
   world s = map page_json (ps @ [q]) @ rest \<Longrightarrow>
   get_all_blocks_loop env tok pt acc s
     = Some (Inr (acc @ concat (map pg_items (ps @ [q]))), s\<lparr>world := rest\<rparr>)"
proof (induction ps arbitrary: pt acc s)
  case Nil
  then have "send env (Request (Docx_Blocks tok)
          (with_page_token [(''page_size'', JInt 500)] pt)) s
      = (Inr (page_json q), s\<lparr>world := rest\<rparr>)"
    by (simp add: send_scripted)
  then show ?case using Nil
    by (subst get_all_blocks_loop.simps) (simp add: py_get_page_json py_extend_def)
next
  case (Cons p ps)
  let ?s1 = "s\<lparr>world := map page_json (ps @ [q]) @ rest\<rparr>"
  obtain t where t: "py_get (page_json p) ''page_token'' JNull = Inr t"
    using py_get_page_json(3) by blast
  have "send env (Request (Docx_Blocks tok)
          (with_page_token [(''page_size'', JInt 500)] pt)) s
      = (Inr (page_json p), ?s1)"
    using Cons.prems by (simp add: send_scripted)
  then have "get_all_blocks_loop env tok pt acc s
      = get_all_blocks_loop env tok t (acc @ pg_items p) ?s1"
    using Cons.prems t
    by (subst get_all_blocks_loop.simps) (simp add: py_get_page_json py_extend_def)
  also have "\<dots> = Some (Inr ((acc @ pg_items p) @ concat (map pg_items (ps @ [q]))), ?s1\<lparr>world := rest\<rparr>)"
    using Cons.prems by (intro Cons.IH) auto
  finally show ?case by simp
qed

lemma get_all_blocks_loop_always_more:
  assumes "always_more env"
  shows "get_all_blocks_loop env tok pt acc s = None"
proof (rule ccontr)
  assume "get_all_blocks_loop env tok pt acc s \<noteq> None"
  then obtain y where y: "get_all_blocks_loop env tok pt acc s = Some y" by blast
  have "always_more env \<longrightarrow> False"
  proof (rule get_all_blocks_loop.raw_induct
      [where P = "\<lambda>env tok pt acc s y. always_more env \<longrightarrow> False", OF _ y], goal_cases)
    case (1 loop env tok pt acc s y)
    show ?case
    proof
      assume am: "always_more env"
      from am[unfolded always_more_def, rule_format, of "Request (Docx_Blocks tok)
          (with_page_token [(''page_size'', JInt 500)] pt)" "world s"]
      obtain d xs w where rw: "make_request env (Request (Docx_Blocks tok)
          (with_page_token [(''page_size'', JInt 500)] pt)) (world s) = (Inr (JObj d), w)"
        and d: "truthy (dict_get d ''has_more'' (JBool False))"
          "py_iter (dict_get d ''items'' (JArr [])) = Inr xs"
        by blast
      from 1(2) rw d have "loop env tok (dict_get d ''page_token'' JNull) (acc @ xs) (s\<lparr>world := w\<rparr>) = Some y"
        by (simp add: send_def py_extend_def)
      from 1(1)[OF this] am show False by blast
    qed
  qed
  with assms show False by blast
qed

lemma get_wiki_children_loop_scripted:
  "make_request env = scripted \<Longrightarrow> \<forall>p\<in>set ps. pg_has_more p \<Longrightarrow> \<not> pg_has_more q \<Longrightarrow>
   world s = map page_json (ps @ [q]) @ rest \<Longrightarrow>
   get_wiki_children_loop env sp par pt acc s
     = Some (Inr (acc @ concat (map pg_items (ps @ [q]))), s\<lparr>world := rest\<rparr>)"
proof (induction ps arbitrary: pt acc s)
  case Nil
  then have "send env (Request (Wiki_Space_Nodes sp)
          (with_page_token [(''page_size'', JInt 50), (''parent_node_token'', par)] pt)) s
      = (Inr (page_json q), s\<lparr>world := rest\<rparr>)"
    by (simp add: send_scripted)
  then show ?case using Nil
    by (subst get_wiki_children_loop.simps) (simp add: py_get_page_json py_extend_def)
next
  case (Cons p ps)
  let ?s1 = "s\<lparr>world := map page_json (ps @ [q]) @ rest\<rparr>"
  obtain t where t: "py_get (page_json p) ''page_token'' JNull = Inr t"
    using py_get_page_json(3) by blast
  have "send env (Request (Wiki_Space_Nodes sp)
          (with_page_token [(''page_size'', JInt 50), (''parent_node_token'', par)] pt)) s
      = (Inr (page_json p), ?s1)"
    using Cons.prems by (simp add: send_scripted)
  then have "get_wiki_children_loop env sp par pt acc s
      = get_wiki_children_loop env sp par t (acc @ pg_items p) ?s1"
    using Cons.prems t
    by (subst get_wiki_children_loop.simps) (simp add: py_get_page_json py_extend_def)
  also have "\<dots> = Some (Inr ((acc @ pg_items p) @ concat (map pg_items (ps @ [q]))), ?s1\<lparr>world := rest\<rparr>)"
    using Cons.prems by (intro Cons.IH) auto
  finally show ?case by simp
qed

lemma get_wiki_children_loop_always_more:
  assumes "always_more env"
  shows "get_wiki_children_loop env sp par pt acc s = None"
proof (rule ccontr)
  assume "get_wiki_children_loop env sp par pt acc s \<noteq> None"
  then obtain y where y: "get_wiki_children_loop env sp par pt acc s = Some y" by blast
  have "always_more env \<longrightarrow> False"
  proof (rule get_wiki_children_loop.raw_induct
      [where P = "\<lambda>env sp par pt acc s y. always_more env \<longrightarrow> False", OF _ y], goal_cases)
    case (1 loop env sp par pt acc s y)
    show ?case
    proof
      assume am: "always_more env"
      from am[unfolded always_more_def, rule_format, of "Request (Wiki_Space_Nodes sp)
          (with_page_token [(''page_size'', JInt 50), (''parent_node_token'', par)] pt)" "world s"]
      obtain d xs w where rw: "make_request env (Request (Wiki_Space_Nodes sp)
          (with_page_token [(''page_size'', JInt 50), (''parent_node_token'', par)] pt)) (world s) = (Inr (JObj d), w)"
        and d: "truthy (dict_get d ''has_more'' (JBool False))"
          "py_iter (dict_get d ''items'' (JArr [])) = Inr xs"
        by blast
      from 1(2) rw d have "loop env sp par (dict_get d ''page_token'' JNull) (acc @ xs) (s\<lparr>world := w\<rparr>) = Some y"
        by (simp add: send_def py_extend_def)
      from 1(1)[OF this] am show False by blast
    qed
  qed
  with assms show False by blast
qed

lemma get_wiki_space_nodes_loop_scripted:
  "make_request env = scripted \<Longrightarrow> \<forall>p\<in>set ps. pg_has_more p \<Longrightarrow> \<not> pg_has_more q \<Longrightarrow>
   world s = map page_json (ps @ [q]) @ rest \<Longrightarrow>
   get_wiki_space_nodes_loop env sp par pt acc s
     = Some (Inr (acc @ concat (map pg_items (ps @ [q]))), s\<lparr>world := rest\<rparr>)"
proof (induction ps arbitrary: pt acc s)
  case Nil
  then have "send env (Request (Wiki_Space_Nodes sp)
          (with_page_token (if truthy par then AList.update ''parent_node_token'' par [(''page_size'', JInt 50)] else [(''page_size'', JInt 50)]) pt)) s
      = (Inr (page_json q), s\<lparr>world := rest\<rparr>)"
    by (simp add: send_scripted)
  then show ?case using Nil
    by (subst get_wiki_space_nodes_loop.simps) (simp add: py_get_page_json py_extend_def)
next
  case (Cons p ps)
  let ?s1 = "s\<lparr>world := map page_json (ps @ [q]) @ rest\<rparr>"
  obtain t where t: "py_get (page_json p) ''page_token'' JNull = Inr t"
    using py_get_page_json(3) by blast
  have "send env (Request (Wiki_Space_Nodes sp)
          (with_page_token (if truthy par then AList.update ''parent_node_token'' par [(''page_size'', JInt 50)] else [(''page_size'', JInt 50)]) pt)) s
      = (Inr (page_json p), ?s1)"
    using Cons.prems by (simp add: send_scripted)
  then have "get_wiki_space_nodes_loop env sp par pt acc s
      = get_wiki_space_nodes_loop env sp par t (acc @ pg_items p) ?s1"
    using Cons.prems t
    by (subst get_wiki_space_nodes_loop.simps) (simp add: py_get_page_json py_extend_def)
  also have "\<dots> = Some (Inr ((acc @ pg_items p) @ concat (map pg_items (ps @ [q]))), ?s1\<lparr>world := rest\<rparr>)"
    using Cons.prems by (intro Cons.IH) auto
  finally show ?case by simp
qed

lemma get_wiki_space_nodes_loop_always_more:
  assumes "always_more env"
  shows "get_wiki_space_nodes_loop env sp par pt acc s = None"
proof (rule ccontr)
  assume "get_wiki_space_nodes_loop env sp par pt acc s \<noteq> None"
  then obtain y where y: "get_wiki_space_nodes_loop env sp par pt acc s = Some y" by blast
  have "always_more env \<longrightarrow> False"
  proof (rule get_wiki_space_nodes_loop.raw_induct
      [where P = "\<lambda>env sp par pt acc s y. always_more env \<longrightarrow> False", OF _ y], goal_cases)
    case (1 loop env sp par pt acc s y)
    show ?case
    proof
      assume am: "always_more env"
      from am[unfolded always_more_def, rule_format, of "Request (Wiki_Space_Nodes sp)
          (with_page_token (if truthy par then AList.update ''parent_node_token'' par [(''page_size'', JInt 50)] else [(''page_size'', JInt 50)]) pt)" "world s"]
      obtain d xs w where rw: "make_request env (Request (Wiki_Space_Nodes sp)
          (with_page_token (if truthy par then AList.update ''parent_node_token'' par [(''page_size'', JInt 50)] else [(''page_size'', JInt 50)]) pt)) (world s) = (Inr (JObj d), w)"
        and d: "truthy (dict_get d ''has_more'' (JBool False))"
          "py_iter (dict_get d ''items'' (JArr [])) = Inr xs"
        by blast
      from 1(2) rw d have "loop env sp par (dict_get d ''page_token'' JNull) (acc @ xs) (s\<lparr>world := w\<rparr>) = Some y"
        by (simp add: send_def py_extend_def)
      from 1(1)[OF this] am show False by blast
    qed
  qed
  with assms show False by blast
qed

lemma get_all_bitable_records_loop_scripted:
  "make_request env = scripted \<Longrightarrow> \<forall>p\<in>set ps. pg_has_more p \<Longrightarrow> \<not> pg_has_more q \<Longrightarrow>
   world s = map page_json (ps @ [q]) @ rest \<Longrightarrow>
   length (concat (map pg_items ps)) + length acc \<le> 10000 \<Longrightarrow>
   get_all_bitable_records_loop env app tbl pt acc s
     = Some (Inr (acc @ concat (map pg_items (ps @ [q]))), s\<lparr>world := rest\<rparr>)"
proof (induction ps arbitrary: pt acc s)
  case Nil
  then have "send env (Request (Bitable_Records app tbl)
          (with_page_token [(''page_size'', JInt 500)] pt)) s
      = (Inr (page_json q), s\<lparr>world := rest\<rparr>)"
    by (simp add: send_scripted)
  then show ?case using Nil
    by (subst get_all_bitable_records_loop.simps) (simp add: py_get_page_json py_extend_def)
next
  case (Cons p ps)
  let ?s1 = "s\<lparr>world := map page_json (ps @ [q]) @ rest\<rparr>"
  obtain t where t: "py_get (page_json p) ''page_token'' JNull = Inr t"
    using py_get_page_json(3) by blast
  have "send env (Request (Bitable_Records app tbl)
          (with_page_token [(''page_size'', JInt 500)] pt)) s
      = (Inr (page_json p), ?s1)"
    using Cons.prems by (simp add: send_scripted)
  then have "get_all_bitable_records_loop env app tbl pt acc s
      = get_all_bitable_records_loop env app tbl t (acc @ pg_items p) ?s1"
    using Cons.prems t
    by (subst get_all_bitable_records_loop.simps) (simp add: py_get_page_json py_extend_def)
  also have "\<dots> = Some (Inr ((acc @ pg_items p) @ concat (map pg_items (ps @ [q]))), ?s1\<lparr>world := rest\<rparr>)"
    using Cons.prems by (intro Cons.IH) auto
  finally show ?case by simp
qed

text \<open>
  Claim C1, as the code has it. No loop looks at the cursor to decide whether to go
  on: a loop ends at the first response whose \<open>has_more\<close> is false (or that fails), and
  a response without a cursor is followed by a request without one. Against a script
  of pages that report \<open>has_more\<close> followed by one that does not, each loop makes one
  request per page up to and including that one and returns the items of all of
  them, in order, whatever the cursors are (the record listing as long as the pages
  before the last hold at most 10000 items). When every response reports
  \<open>has_more\<close>, the block listing and the two wiki listings never return.
\<close>

theorem drain_loops_end_only_at_has_more_false:
  "(make_request env = scripted \<and> (\<forall>p\<in>set ps. pg_has_more p) \<and> \<not> pg_has_more q \<and>
    world s = map page_json (ps @ [q]) @ rest \<longrightarrow>
      get_all_blocks env tok pt s
        = Some (Inr [(''items'', JArr (concat (map pg_items (ps @ [q]))))], s\<lparr>world := rest\<rparr>) \<and>
      get_wiki_children env sp par s
        = Some (Inr (concat (map pg_items (ps @ [q]))), s\<lparr>world := rest\<rparr>) \<and>
      get_wiki_space_nodes env sp par s
        = Some (Inr (concat (map pg_items (ps @ [q]))), s\<lparr>world := rest\<rparr>) \<and>
      (length (concat (map pg_items ps)) \<le> 10000 \<longrightarrow>
         get_all_bitable_records env app tbl s
           = Some (Inr (concat (map pg_items (ps @ [q]))), s\<lparr>world := rest\<rparr>)))
   \<and> (always_more env' \<longrightarrow>
        get_all_blocks env' tok pt s' = None \<and>
        get_wiki_children env' sp par s' = None \<and>
        get_wiki_space_nodes env' sp par s' = None)"
proof (intro conjI impI)
  assume h: "make_request env = scripted \<and> (\<forall>p\<in>set ps. pg_has_more p) \<and> \<not> pg_has_more q \<and>
    world s = map page_json (ps @ [q]) @ rest"
  show "get_all_blocks env tok pt s
        = Some (Inr [(''items'', JArr (concat (map pg_items (ps @ [q]))))], s\<lparr>world := rest\<rparr>)"
    using h get_all_blocks_loop_scripted[of env ps q s rest tok pt "[]"]
    by (simp add: get_all_blocks_def)
  show "get_wiki_children env sp par s
        = Some (Inr (concat (map pg_items (ps @ [q]))), s\<lparr>world := rest\<rparr>)"
    using h get_wiki_children_loop_scripted[of env ps q s rest sp par JNull "[]"]
    by (simp add: get_wiki_children_def)
  show "get_wiki_space_nodes env sp par s
        = Some (Inr (concat (map pg_items (ps @ [q]))), s\<lparr>world := rest\<rparr>)"
    using h get_wiki_space_nodes_loop_scripted[of env ps q s rest sp par JNull "[]"]
    by (simp add: get_wiki_space_nodes_def)
  assume "length (concat (map pg_items ps)) \<le> 10000"
  then show "get_all_bitable_records env app tbl s
           = Some (Inr (concat (map pg_items (ps @ [q]))), s\<lparr>world := rest\<rparr>)"
    using h get_all_bitable_records_loop_scripted[of env ps q s rest "[]" app tbl JNull]
    by (simp add: get_all_bitable_records_def)
next
  assume "always_more env'"
  then show "get_all_blocks env' tok pt s' = None"
    by (simp add: get_all_blocks_def get_all_blocks_loop_always_more)
next
  assume "always_more env'"
  then show "get_wiki_children env' sp par s' = None"
    by (simp add: get_wiki_children_def get_wiki_children_loop_always_more)
next
  assume "always_more env'"
  then show "get_wiki_space_nodes env' sp par s' = None"
    by (simp add: get_wiki_space_nodes_def get_wiki_space_nodes_loop_always_more)
qed

lemma always_more_repeating_page1: "always_more (env_of (repeating (page_json page1)))"
  by (simp add: always_more_def env_of_def repeating_def page_json_def page1_def dict_get_def)

theorem drain_loops_end_only_at_has_more_false_witness:
  "make_request (env_of scripted) = scripted
   \<and> pg_has_more page0 \<and> pg_has_more page1 \<and> \<not> pg_has_more page2
   \<and> get_all_blocks (env_of scripted) (JStr ''doc'') JNull
       (start (map page_json [page0, page1, page2]))
       = Some (Inr [(''items'', JArr [JStr ''a'', JStr ''b'', JStr ''c''])], start [])
   \<and> get_all_bitable_records (env_of scripted) (JStr ''app'') (JStr ''tbl'')
       (start (map page_json [page0, page1, page2]))
       = Some (Inr [JStr ''a'', JStr ''b'', JStr ''c''], start [])
   \<and> always_more (env_of (repeating (page_json page1)))
   \<and> get_wiki_children (env_of (repeating (page_json page1))) (JStr ''space'') (JStr ''node'')
       (start ()) = None"
proof -
  have m: "make_request (env_of scripted) = scripted"
    by (simp add: env_of_def)
  have hm: "pg_has_more page0" "pg_has_more page1" "\<not> pg_has_more page2"
    by (simp_all add: page0_def page1_def page2_def)
  have pre: "make_request (env_of scripted) = scripted \<and> (\<forall>p\<in>set [page0, page1]. pg_has_more p) \<and>
      \<not> pg_has_more page2 \<and>
      world (start (map page_json [page0, page1, page2])) = map page_json ([page0, page1] @ [page2]) @ []"
    using m hm by (simp add: start_def)
  have len: "length (concat (map pg_items [page0, page1])) \<le> 10000"
    by (simp add: page0_def page1_def)
  note run = drain_loops_end_only_at_has_more_false[THEN conjunct1, THEN mp, OF pre]
  have b: "get_all_blocks (env_of scripted) (JStr ''doc'') JNull
       (start (map page_json [page0, page1, page2]))
       = Some (Inr [(''items'', JArr [JStr ''a'', JStr ''b'', JStr ''c''])], start [])"
    using run[THEN conjunct1, of "JStr ''doc''" JNull]
    by (simp add: start_def page0_def page1_def page2_def)
  have r: "get_all_bitable_records (env_of scripted) (JStr ''app'') (JStr ''tbl'')
       (start (map page_json [page0, page1, page2]))
       = Some (Inr [JStr ''a'', JStr ''b'', JStr ''c''], start [])"
    using run[THEN conjunct2, THEN conjunct2, THEN conjunct2, THEN mp, OF len, of "JStr ''app''" "JStr ''tbl''"]
    by (simp add: start_def page0_def page1_def page2_def)
  have n: "get_wiki_children (env_of (repeating (page_json page1))) (JStr ''space'') (JStr ''node'')
       (start ()) = None"
    using drain_loops_end_only_at_has_more_false[THEN conjunct2, THEN mp, OF always_more_repeating_page1]
    by blast
  show ?thesis using m hm b r always_more_repeating_page1 n by blast
qed

theorem drain_missing_cursor_counterexample:
  "get_wiki_space_nodes (env_of scripted) (JStr ''space'') JNull
     (start (map page_json [page0, page1, page2]))
     = Some (Inr [JStr ''a'', JStr ''b'', JStr ''c''], start [])
   \<and> get_all_blocks (env_of (repeating (page_json page1))) (JStr ''doc'') JNull (start ()) = None"
proof
  have "make_request (env_of scripted) = scripted"
    by (simp add: env_of_def)
  then show "get_wiki_space_nodes (env_of scripted) (JStr ''space'') JNull
     (start (map page_json [page0, page1, page2]))
     = Some (Inr [JStr ''a'', JStr ''b'', JStr ''c''], start [])"
    using get_wiki_space_nodes_loop_scripted[of "env_of scripted" "[page0, page1]" page2
        "start (map page_json [page0, page1, page2])" "[]" "JStr ''space''" JNull JNull "[]"]
    by (simp add: get_wiki_space_nodes_def start_def page0_def page1_def page2_def)
  show "get_all_blocks (env_of (repeating (page_json page1))) (JStr ''doc'') JNull (start ()) = None"
    by (simp add: get_all_blocks_def get_all_blocks_loop_always_more always_more_repeating_page1)
qed

lemma get_all_bitable_records_loop_endless:
  assumes "endless_pages n env" and "length acc \<le> 10000"
  shows "\<exists>recs s'. get_all_bitable_records_loop env app tbl pt acc s = Some (Inr recs, s') \<and>
           10000 < length recs \<and> length recs \<le> 10000 + n \<and>
           logged s' = logged s @ [Warn_Record_Limit]"
  using assms(2)
proof (induction "10001 - length acc" arbitrary: acc pt s rule: less_induct)
  case less
  from assms(1)[unfolded endless_pages_def, rule_format,
      of "Request (Bitable_Records app tbl) (with_page_token [(''page_size'', JInt 500)] pt)" "world s"]
  obtain d xs w where rw: "make_request env (Request (Bitable_Records app tbl)
        (with_page_token [(''page_size'', JInt 500)] pt)) (world s) = (Inr (JObj d), w)"
    and hm: "truthy (dict_get d ''has_more'' (JBool False))"
    and it: "dict_get d ''items'' (JArr []) = JArr xs"
    and xs: "xs \<noteq> []" "length xs \<le> n"
    by blast
  let ?s1 = "s\<lparr>world := w\<rparr>"
  have step: "get_all_bitable_records_loop env app tbl pt acc s =
      (if length (acc @ xs) > 10000 then Some (Inr (acc @ xs), logger Warn_Record_Limit ?s1)
       else get_all_bitable_records_loop env app tbl (dict_get d ''page_token'' JNull) (acc @ xs) ?s1)"
    using rw hm it
    by (subst get_all_bitable_records_loop.simps) (simp add: send_def py_extend_def)
  show ?case
  proof (cases "length (acc @ xs) > 10000")
    case True
    then show ?thesis
      using step less.prems xs by (simp add: logger_def)
  next
    case False
    then have le: "length (acc @ xs) \<le> 10000" by simp
    have "10001 - length (acc @ xs) < 10001 - length acc"
      using xs less.prems by (cases xs) auto
    from less.hyps[OF this le, of "dict_get d ''page_token'' JNull" ?s1]
    show ?thesis using step False by simp
  qed
qed

text \<open>
  Claim C2, as the code has it. When every response reports \<open>has_more\<close> with between
  one and \<open>n\<close> records, the record listing returns, without an exception, once the
  accumulated list is longer than 10000: the list returned has more than 10000 and at
  most \<open>10000 + n\<close> records, and the only mark of the early stop is one logged
  warning.
\<close>

theorem bitable_records_stop_after_exceeding_limit:
  assumes "endless_pages n env"
  shows "\<exists>recs s'. get_all_bitable_records env app tbl s = Some (Inr recs, s') \<and>
           10000 < length recs \<and> length recs \<le> 10000 + n \<and>
           logged s' = logged s @ [Warn_Record_Limit]"
  using get_all_bitable_records_loop_endless[OF assms, of "[]" app tbl JNull s]
  by (simp add: get_all_bitable_records_def)

lemma endless_pages_page500: "endless_pages 500 (env_of (repeating (page_json page500)))"
  by (simp add: endless_pages_def env_of_def repeating_def page_json_def page500_def dict_get_def)

theorem bitable_records_stop_after_exceeding_limit_witness:
  "endless_pages 500 (env_of (repeating (page_json page500)))
   \<and> (\<exists>recs s'. get_all_bitable_records (env_of (repeating (page_json page500)))
          (JStr ''app'') (JStr ''tbl'') (start ()) = Some (Inr recs, s') \<and>
        10000 < length recs \<and> length recs \<le> 10500 \<and> logged s' = [Warn_Record_Limit])"
  using bitable_records_stop_after_exceeding_limit[OF endless_pages_page500,
      of "JStr ''app''" "JStr ''tbl''" "start ()"] endless_pages_page500
  by (simp add: start_def)

lemma world_unit_update: "(s :: unit state)\<lparr>world := ()\<rparr> = s"
  by (cases s) simp

lemma get_all_bitable_records_loop_page500:
  "j \<le> 20 \<Longrightarrow>
   get_all_bitable_records_loop (env_of (repeating (page_json page500))) app tbl pt
     (replicate (500 * j) (JObj [(''record_id'', JStr ''r'')])) s
   = Some (Inr (replicate 10500 (JObj [(''record_id'', JStr ''r'')])), logger Warn_Record_Limit s)"
proof (induction "20 - j" arbitrary: j pt)
  case 0
  then have j: "j = 20" by simp
  show ?case
    unfolding j
    by (subst get_all_bitable_records_loop.simps)
      (simp add: send_def env_of_def repeating_def page_json_def page500_def dict_get_def
        py_extend_def replicate_add[symmetric] world_unit_update add.commute)
next
  case (Suc k)
  then have j: "j < 20" "k = 20 - Suc j" "Suc j \<le> 20" by simp_all
  have "get_all_bitable_records_loop (env_of (repeating (page_json page500))) app tbl pt
     (replicate (500 * j) (JObj [(''record_id'', JStr ''r'')])) s
     = get_all_bitable_records_loop (env_of (repeating (page_json page500))) app tbl (JStr ''next'')
     (replicate (500 * Suc j) (JObj [(''record_id'', JStr ''r'')])) s"
    using j(1)
    by (subst get_all_bitable_records_loop.simps)
      (simp add: send_def env_of_def repeating_def page_json_def page500_def dict_get_def
        py_extend_def replicate_add[symmetric] world_unit_update add.commute)
  also have "\<dots> = Some (Inr (replicate 10500 (JObj [(''record_id'', JStr ''r'')])), logger Warn_Record_Limit s)"
    using Suc.hyps(1)[OF j(2) j(3)] .
  finally show ?case .
qed

theorem bitable_records_limit_counterexample:
  "get_all_bitable_records (env_of (repeating (page_json page500))) (JStr ''app'') (JStr ''tbl'')
     (start ())
   = Some (Inr (replicate 10500 (JObj [(''record_id'', JStr ''r'')])),
           \<lparr>world = (), logged = [Warn_Record_Limit]\<rparr>)
   \<and> length (replicate 10500 (JObj [(''record_id'', JStr ''r'')])) = 10500"
  using get_all_bitable_records_loop_page500[of 0 "JStr ''app''" "JStr ''tbl''" JNull "start ()"]
  by (simp add: get_all_bitable_records_def start_def logger_def)

section \<open>Properties of the readers and of the traversal\<close>

lemma readers_none:
  "kind \<notin> {TYPE_DOCX, TYPE_DOC, TYPE_SHEET, TYPE_BITABLE, TYPE_WIKI} \<Longrightarrow> readers env kind = None"
  by (simp add: readers_def)

lemma wiki_content_unsupported:
  "obj_type \<notin> {JStr ''docx'', JStr ''doc'', JStr ''sheet'', JStr ''bitable''} \<Longrightarrow>
   wiki_content env obj_type obj_token s
     = Some (JObj [(''note'', JStr (unsupported_note env obj_type))], s)"
  by (simp add: wiki_content_def)

text \<open>
  Claim C6, as the code has it. A declared kind that has no reader (file, slides or
  any other name that is not docx, doc, sheet, bitable or wiki) makes \<^verbatim>\<open>read\<close> raise
  the exception "unsupported document type" with the kind, before any request. In the
  read of a single wiki node, an \<^verbatim>\<open>obj_type\<close> without a reader gives the content
  \<^verbatim>\<open>{"note": ...}\<close> and no exception (unless the listing of the children never
  returns).
\<close>

theorem unsupported_kind_outcomes:
  "(kind \<noteq> [] \<and> kind \<notin> {TYPE_DOCX, TYPE_DOC, TYPE_SHEET, TYPE_BITABLE, TYPE_WIKI} \<and>
    (if prefix ''http'' token_or_url then extract_token_from_url env token_or_url
     else Inr token_or_url) = Inr token
    \<longrightarrow> read env token_or_url (Some kind) s
          = Some (Inl (Exception (unsupported_type_message @ kind)),
                  logger (Info_Read kind token) s))
   \<and> (get_wiki_node_info env wiki_token s = (Inr (JObj ni), s1) \<and>
      dict_get ni ''obj_type'' (JStr []) = obj_type \<and>
      obj_type \<notin> {JStr ''docx'', JStr ''doc'', JStr ''sheet'', JStr ''bitable''}
      \<longrightarrow> read_wiki env wiki_token s = None \<or>
          (\<exists>children s'. read_wiki env wiki_token s
             = Some (Inr [(''node'', JObj ni),
                          (''content'', JObj [(''note'', JStr (unsupported_note env obj_type))]),
                          (''children'', JArr children)], s')))"
proof (intro conjI impI)
  assume h: "kind \<noteq> [] \<and> kind \<notin> {TYPE_DOCX, TYPE_DOC, TYPE_SHEET, TYPE_BITABLE, TYPE_WIKI} \<and>
    (if prefix ''http'' token_or_url then extract_token_from_url env token_or_url
     else Inr token_or_url) = Inr token"
  then have "readers env kind = None"
    by (intro readers_none) simp
  then show "read env token_or_url (Some kind) s
          = Some (Inl (Exception (unsupported_type_message @ kind)),
                  logger (Info_Read kind token) s)"
    using h by (simp add: read_def startswith_prefix)
next
  assume h: "get_wiki_node_info env wiki_token s = (Inr (JObj ni), s1) \<and>
      dict_get ni ''obj_type'' (JStr []) = obj_type \<and>
      obj_type \<notin> {JStr ''docx'', JStr ''doc'', JStr ''sheet'', JStr ''bitable''}"
  then have c: "wiki_content env obj_type (dict_get ni ''obj_token'' (JStr []))
        (logger (Info_Wiki_Node obj_type (dict_get ni ''obj_token'' (JStr []))) s1)
      = Some (JObj [(''note'', JStr (unsupported_note env obj_type))],
              logger (Info_Wiki_Node obj_type (dict_get ni ''obj_token'' (JStr []))) s1)"
    by (intro wiki_content_unsupported) simp
  show "read_wiki env wiki_token s = None \<or>
          (\<exists>children s'. read_wiki env wiki_token s
             = Some (Inr [(''node'', JObj ni),
                          (''content'', JObj [(''note'', JStr (unsupported_note env obj_type))]),
                          (''children'', JArr children)], s'))"
    using h c
    by (auto simp: read_wiki_def as_dict_def Let_def split: option.splits sum.splits prod.splits)
qed

lemma send_small_env:
  "send small_env rq s = (fst (small_wiki rq (world s)), s\<lparr>world := world s + 1\<rparr>)"
  by (simp add: send_def small_env_def env_of_def small_wiki_def split: request.splits)

lemma get_wiki_node_info_m:
  "get_wiki_node_info small_env (JStr ''m'') (start 0)
     = (Inr (node_of ''m'' ''mindnote'' False), \<lparr>world = 1, logged = []\<rparr>)"
  by (simp add: get_wiki_node_info_def send_small_env small_wiki_def start_def dict_get_def)

theorem unsupported_kind_outcomes_witness:
  "''slides'' \<noteq> [] \<and> ''slides'' \<notin> {TYPE_DOCX, TYPE_DOC, TYPE_SHEET, TYPE_BITABLE, TYPE_WIKI}
   \<and> read offline_env ''tok1'' (Some ''slides'') (start ())
       = Some (Inl (Exception (unsupported_type_message @ ''slides'')),
               logger (Info_Read ''slides'' ''tok1'') (start ()))
   \<and> get_wiki_node_info small_env (JStr ''m'') (start 0)
       = (Inr (node_of ''m'' ''mindnote'' False), \<lparr>world = 1, logged = []\<rparr>)
   \<and> read_wiki small_env (JStr ''m'') (start 0)
       = Some (Inr [(''node'', node_of ''m'' ''mindnote'' False),
                    (''content'',
                     JObj [(''note'', JStr (unsupported_note small_env (JStr ''mindnote'')))]),
                    (''children'', JArr [])],
               \<lparr>world = 1, logged = [Info_Wiki_Node (JStr ''mindnote'') (JStr ''obj_m'')]\<rparr>)"
proof -
  have k: "''slides'' \<noteq> [] \<and> ''slides'' \<notin> {TYPE_DOCX, TYPE_DOC, TYPE_SHEET, TYPE_BITABLE, TYPE_WIKI} \<and>
      (if prefix ''http'' ''tok1'' then extract_token_from_url offline_env ''tok1''
       else Inr ''tok1'') = Inr ''tok1''"
    by (simp add: TYPE_DOCX_def TYPE_DOC_def TYPE_SHEET_def TYPE_BITABLE_def TYPE_WIKI_def)
  have r: "read offline_env ''tok1'' (Some ''slides'') (start ())
       = Some (Inl (Exception (unsupported_type_message @ ''slides'')),
               logger (Info_Read ''slides'' ''tok1'') (start ()))"
    using unsupported_kind_outcomes[THEN conjunct1, THEN mp, OF k] .
  have w: "get_wiki_node_info small_env (JStr ''m'') (start 0)
        = (Inr (JObj [(''node_token'', JStr ''m''), (''obj_type'', JStr ''mindnote''),
           (''obj_token'', JStr (''obj_'' @ ''m'')), (''has_child'', JBool False),
           (''space_id'', JStr ''space'')]), \<lparr>world = 1, logged = []\<rparr>) \<and>
      dict_get [(''node_token'', JStr ''m''), (''obj_type'', JStr ''mindnote''),
           (''obj_token'', JStr (''obj_'' @ ''m'')), (''has_child'', JBool False),
           (''space_id'', JStr ''space'')] ''obj_type'' (JStr []) = JStr ''mindnote'' \<and>
      JStr ''mindnote'' \<notin> {JStr ''docx'', JStr ''doc'', JStr ''sheet'', JStr ''bitable''}"
    using get_wiki_node_info_m by (simp add: node_of_def dict_get_def)
  have e: "read_wiki small_env (JStr ''m'') (start 0)
       = Some (Inr [(''node'', node_of ''m'' ''mindnote'' False),
                    (''content'',
                     JObj [(''note'', JStr (unsupported_note small_env (JStr ''mindnote'')))]),
                    (''children'', JArr [])],
               \<lparr>world = 1, logged = [Info_Wiki_Node (JStr ''mindnote'') (JStr ''obj_m'')]\<rparr>)"
    using unsupported_kind_outcomes[THEN conjunct2, THEN mp, OF w]
    by (auto simp: read_wiki_def get_wiki_node_info_m node_of_def as_dict_def dict_get_def
        wiki_content_def logger_def Let_def)
  show ?thesis using k r get_wiki_node_info_m e by blast
qed

theorem unsupported_kind_counterexample:
  "read offline_env ''boxcn123'' (Some ''file'') (start ())
     = Some (Inl (Exception (unsupported_type_message @ ''file'')),
             \<lparr>world = (), logged = [Info_Read ''file'' ''boxcn123'']\<rparr>)
   \<and> read_wiki_nodes_recursive small_env (JStr ''space'') [node_of ''m'' ''mindnote'' False] 0
       (start 0)
     = Some (Inr [node_of ''m'' ''mindnote'' False], start 0)"
  by (simp add: read_def readers_def TYPE_DOCX_def TYPE_DOC_def TYPE_SHEET_def TYPE_BITABLE_def
      TYPE_WIKI_def logger_def start_def node_of_def as_dict_def dict_get_def node_content_def
      Let_def)

lemma get_all_blocks_small:
  "get_all_blocks small_env tok pt s
     = Some (Inr [(''items'', JArr [])], s\<lparr>world := world s + 1\<rparr>)"
  unfolding get_all_blocks_def
  by (subst get_all_blocks_loop.simps)
    (simp add: send_small_env small_wiki_def dict_get_def py_extend_def)

lemma extract_text_small: "extract_text_from_blocks small_env blocks = Inr []"
  by (simp add: small_env_def env_of_def)

lemma read_docx_small:
  "tok \<noteq> JStr ''obj_b'' \<Longrightarrow>
   read_docx small_env tok s
     = Some (Inr [(''document'', JObj [(''document_id'', tok)]), (''blocks'', JArr []),
                  (''text_content'', JStr [])], s\<lparr>world := world s + 2\<rparr>)"
  by (simp add: read_docx_def send_small_env small_wiki_def get_all_blocks_small dict_get_def
      extract_text_small)

lemma read_docx_small_denied:
  "read_docx small_env (JStr ''obj_b'') s
     = Some (Inl (Exception ''permission denied''), s\<lparr>world := world s + 1\<rparr>)"
  by (simp add: read_docx_def send_small_env small_wiki_def)

lemma get_wiki_space_nodes_small_children:
  "truthy parent \<Longrightarrow>
   get_wiki_space_nodes small_env sp parent s
     = Some (Inl (Exception ''children unavailable''), s\<lparr>world := world s + 1\<rparr>)"
  unfolding get_wiki_space_nodes_def
  by (subst get_wiki_space_nodes_loop.simps)
    (simp add: send_small_env small_wiki_def with_page_token_def)

lemma get_wiki_space_nodes_small_roots:
  "get_wiki_space_nodes small_env sp JNull s
     = Some (Inr [node_of ''a'' ''docx'' False, node_of ''b'' ''docx'' False,
                  node_of ''c'' ''docx'' False], s\<lparr>world := world s + 1\<rparr>)"
  unfolding get_wiki_space_nodes_def
  by (subst get_wiki_space_nodes_loop.simps)
    (simp add: send_small_env small_wiki_def with_page_token_def dict_get_def py_extend_def)

lemma get_wiki_children_small:
  "get_wiki_children small_env sp parent s
     = Some (Inl (Exception ''children unavailable''), s\<lparr>world := world s + 1\<rparr>)"
  unfolding get_wiki_children_def
  by (subst get_wiki_children_loop.simps)
    (simp add: send_small_env small_wiki_def with_page_token_def)

text \<open>
  Claim C5, as the code has it. In the recursive traversal, when the listing of the
  children of a node with a true \<^verbatim>\<open>has_child\<close> fails, the node gets \<^verbatim>\<open>children_error\<close>
  (the text of the exception) and nothing else, no request is made below it, and the
  loop goes on with the nodes after it. In the read of a single node, a failing
  listing is logged as a warning and the result has the empty list of children; no
  \<^verbatim>\<open>children_error\<close> is set there.
\<close>

theorem children_listing_failure:
  "(as_dict node = Inr nd \<and>
    node_content env nd (dict_get nd ''obj_type'' JNull) (dict_get nd ''obj_token'' JNull) s
      = Some (nd1, s1) \<and>
    truthy (dict_get nd1 ''has_child'' (JBool False)) \<and>
    get_wiki_space_nodes env space_id (dict_get nd ''node_token'' JNull) s1 = Some (Inl e, s2)
    \<longrightarrow> read_wiki_node env space_id node depth s
          = Some (Inr (JObj (AList.update ''children_error'' (JStr (str_of_error e)) nd1)), s2) \<and>
        read_wiki_nodes_loop env space_id (node # rest) depth s
          = (case read_wiki_nodes_loop env space_id rest depth s2 of
               None \<Rightarrow> None
             | Some (Inl e', s3) \<Rightarrow> Some (Inl e', s3)
             | Some (Inr rest', s3) \<Rightarrow>
                 Some (Inr (JObj (AList.update ''children_error'' (JStr (str_of_error e)) nd1)
                            # rest'), s3)))
   \<and> (get_wiki_node_info env token t = (Inr (JObj ni), t1) \<and>
      wiki_content env (dict_get ni ''obj_type'' (JStr [])) (dict_get ni ''obj_token'' (JStr []))
        (logger (Info_Wiki_Node (dict_get ni ''obj_type'' (JStr []))
                   (dict_get ni ''obj_token'' (JStr []))) t1) = Some (content, t2) \<and>
      truthy (dict_get ni ''has_child'' (JBool False)) \<and>
      get_wiki_children env (dict_get ni ''space_id'' JNull) token t2 = Some (Inl e', t3)
      \<longrightarrow> read_wiki env token t
            = Some (Inr [(''node'', JObj ni), (''content'', content), (''children'', JArr [])],
                    logger (Warn_Wiki_Children_Failed e') t3))"
proof (intro conjI impI)
  assume h: "as_dict node = Inr nd \<and>
    node_content env nd (dict_get nd ''obj_type'' JNull) (dict_get nd ''obj_token'' JNull) s
      = Some (nd1, s1) \<and>
    truthy (dict_get nd1 ''has_child'' (JBool False)) \<and>
    get_wiki_space_nodes env space_id (dict_get nd ''node_token'' JNull) s1 = Some (Inl e, s2)"
  then show n: "read_wiki_node env space_id node depth s
          = Some (Inr (JObj (AList.update ''children_error'' (JStr (str_of_error e)) nd1)), s2)"
    by (simp add: Let_def)
  show "read_wiki_nodes_loop env space_id (node # rest) depth s
          = (case read_wiki_nodes_loop env space_id rest depth s2 of
               None \<Rightarrow> None
             | Some (Inl e', s3) \<Rightarrow> Some (Inl e', s3)
             | Some (Inr rest', s3) \<Rightarrow>
                 Some (Inr (JObj (AList.update ''children_error'' (JStr (str_of_error e)) nd1)
                            # rest'), s3))"
    by (subst read_wiki_nodes_loop.simps) (simp only: n option.case prod.case sum.case)
next
  assume "get_wiki_node_info env token t = (Inr (JObj ni), t1) \<and>
      wiki_content env (dict_get ni ''obj_type'' (JStr [])) (dict_get ni ''obj_token'' (JStr []))
        (logger (Info_Wiki_Node (dict_get ni ''obj_type'' (JStr []))
                   (dict_get ni ''obj_token'' (JStr []))) t1) = Some (content, t2) \<and>
      truthy (dict_get ni ''has_child'' (JBool False)) \<and>
      get_wiki_children env (dict_get ni ''space_id'' JNull) token t2 = Some (Inl e', t3)"
  then show "read_wiki env token t
            = Some (Inr [(''node'', JObj ni), (''content'', content), (''children'', JArr [])],
                    logger (Warn_Wiki_Children_Failed e') t3)"
    by (simp add: read_wiki_def as_dict_def Let_def)
qed

lemma node_of_p: "node_of ''p'' ''docx'' True = JObj p_dict"
  by (simp add: node_of_def p_dict_def)

lemma node_content_p:
  "node_content small_env p_dict (JStr ''docx'') (JStr ''obj_p'') s
     = Some (p_dict @ [(''content'', p_content)], s\<lparr>world := world s + 2\<rparr>)"
  by (simp add: node_content_def read_docx_small p_dict_def p_content_def)

lemma get_wiki_node_info_p:
  "get_wiki_node_info small_env (JStr ''p'') s = (Inr (JObj p_dict), s\<lparr>world := world s + 1\<rparr>)"
  by (simp add: get_wiki_node_info_def send_small_env small_wiki_def dict_get_def node_of_p)

lemma wiki_content_p:
  "wiki_content small_env (JStr ''docx'') (JStr ''obj_p'') s
     = Some (p_content, s\<lparr>world := world s + 2\<rparr>)"
  by (simp add: wiki_content_def read_docx_small p_content_def)

theorem children_listing_failure_witness:
  "as_dict (node_of ''p'' ''docx'' True) = Inr p_dict
   \<and> truthy (dict_get (p_dict @ [(''content'', p_content)]) ''has_child'' (JBool False))
   \<and> get_wiki_space_nodes small_env (JStr ''space'') (JStr ''p'') \<lparr>world = 2, logged = []\<rparr>
       = Some (Inl (Exception ''children unavailable''), \<lparr>world = 3, logged = []\<rparr>)
   \<and> read_wiki_node small_env (JStr ''space'') (node_of ''p'' ''docx'' True) 0 (start 0)
       = Some (Inr (JObj (p_dict @ [(''content'', p_content),
                                    (''children_error'', JStr ''children unavailable'')])),
               \<lparr>world = 3, logged = []\<rparr>)
   \<and> read_wiki_nodes_loop small_env (JStr ''space'')
         [node_of ''p'' ''docx'' True, node_of ''m'' ''mindnote'' False] 0 (start 0)
       = Some (Inr [JObj (p_dict @ [(''content'', p_content),
                                    (''children_error'', JStr ''children unavailable'')]),
                    node_of ''m'' ''mindnote'' False],
               \<lparr>world = 3, logged = []\<rparr>)
   \<and> get_wiki_children small_env (JStr ''space'') (JStr ''p'')
         \<lparr>world = 3, logged = [Info_Wiki_Node (JStr ''docx'') (JStr ''obj_p'')]\<rparr>
       = Some (Inl (Exception ''children unavailable''),
               \<lparr>world = 4, logged = [Info_Wiki_Node (JStr ''docx'') (JStr ''obj_p'')]\<rparr>)
   \<and> read_wiki small_env (JStr ''p'') (start 0)
       = Some (Inr [(''node'', JObj p_dict), (''content'', p_content), (''children'', JArr [])],
               \<lparr>world = 4,
                logged = [Info_Wiki_Node (JStr ''docx'') (JStr ''obj_p''),
                          Warn_Wiki_Children_Failed (Exception ''children unavailable'')]\<rparr>)"
proof -
  let ?sp = "JStr ''space''"
  have a: "as_dict (node_of ''p'' ''docx'' True) = Inr p_dict"
    by (simp add: node_of_p as_dict_def)
  have c: "node_content small_env p_dict (dict_get p_dict ''obj_type'' JNull)
        (dict_get p_dict ''obj_token'' JNull) (start 0)
      = Some (p_dict @ [(''content'', p_content)], \<lparr>world = 2, logged = []\<rparr>)"
    using node_content_p[of "start 0"] by (simp add: p_dict_def dict_get_def start_def)
  have t: "truthy (dict_get (p_dict @ [(''content'', p_content)]) ''has_child'' (JBool False))"
    by (simp add: p_dict_def dict_get_def)
  have l: "get_wiki_space_nodes small_env ?sp (dict_get p_dict ''node_token'' JNull)
        \<lparr>world = 2, logged = []\<rparr>
      = Some (Inl (Exception ''children unavailable''), \<lparr>world = 3, logged = []\<rparr>)"
    by (simp add: get_wiki_space_nodes_small_children p_dict_def dict_get_def)
  note rec = children_listing_failure[THEN conjunct1, THEN mp, OF conjI[OF a conjI[OF c conjI[OF t l]]]]
  have n: "read_wiki_node small_env ?sp (node_of ''p'' ''docx'' True) 0 (start 0)
       = Some (Inr (JObj (p_dict @ [(''content'', p_content),
                                    (''children_error'', JStr ''children unavailable'')])),
               \<lparr>world = 3, logged = []\<rparr>)"
    using rec[THEN conjunct1, of 0] by (simp add: p_dict_def)
  have m: "read_wiki_nodes_loop small_env ?sp [node_of ''m'' ''mindnote'' False] 0
        \<lparr>world = 3, logged = []\<rparr>
      = Some (Inr [node_of ''m'' ''mindnote'' False], \<lparr>world = 3, logged = []\<rparr>)"
    by (simp add: node_of_def as_dict_def dict_get_def node_content_def Let_def)
  have lp: "read_wiki_nodes_loop small_env ?sp
         [node_of ''p'' ''docx'' True, node_of ''m'' ''mindnote'' False] 0 (start 0)
       = Some (Inr [JObj (p_dict @ [(''content'', p_content),
                                    (''children_error'', JStr ''children unavailable'')]),
                    node_of ''m'' ''mindnote'' False],
               \<lparr>world = 3, logged = []\<rparr>)"
    using rec[THEN conjunct2, of "[node_of ''m'' ''mindnote'' False]" 0] m
    by (simp add: p_dict_def)
  have i: "get_wiki_node_info small_env (JStr ''p'') (start 0)
      = (Inr (JObj p_dict), \<lparr>world = 1, logged = []\<rparr>)"
    by (simp add: get_wiki_node_info_p start_def)
  have w: "wiki_content small_env (dict_get p_dict ''obj_type'' (JStr []))
        (dict_get p_dict ''obj_token'' (JStr []))
        (logger (Info_Wiki_Node (dict_get p_dict ''obj_type'' (JStr []))
                   (dict_get p_dict ''obj_token'' (JStr []))) \<lparr>world = 1, logged = []\<rparr>)
      = Some (p_content, \<lparr>world = 3, logged = [Info_Wiki_Node (JStr ''docx'') (JStr ''obj_p'')]\<rparr>)"
    by (simp add: wiki_content_p p_dict_def dict_get_def logger_def)
  have t': "truthy (dict_get p_dict ''has_child'' (JBool False))"
    by (simp add: p_dict_def dict_get_def)
  have ch: "get_wiki_children small_env (dict_get p_dict ''space_id'' JNull) (JStr ''p'')
        \<lparr>world = 3, logged = [Info_Wiki_Node (JStr ''docx'') (JStr ''obj_p'')]\<rparr>
      = Some (Inl (Exception ''children unavailable''),
              \<lparr>world = 4, logged = [Info_Wiki_Node (JStr ''docx'') (JStr ''obj_p'')]\<rparr>)"
    by (simp add: get_wiki_children_small)
  have r: "read_wiki small_env (JStr ''p'') (start 0)
       = Some (Inr [(''node'', JObj p_dict), (''content'', p_content), (''children'', JArr [])],
               \<lparr>world = 4,
                logged = [Info_Wiki_Node (JStr ''docx'') (JStr ''obj_p''),
                          Warn_Wiki_Children_Failed (Exception ''children unavailable'')]\<rparr>)"
    using children_listing_failure[THEN conjunct2, THEN mp, OF conjI[OF i conjI[OF w conjI[OF t' ch]]]]
    by (simp add: logger_def)
  have l': "get_wiki_space_nodes small_env ?sp (JStr ''p'') \<lparr>world = 2, logged = []\<rparr>
       = Some (Inl (Exception ''children unavailable''), \<lparr>world = 3, logged = []\<rparr>)"
    using l by (simp add: p_dict_def dict_get_def)
  have ch': "get_wiki_children small_env ?sp (JStr ''p'')
        \<lparr>world = 3, logged = [Info_Wiki_Node (JStr ''docx'') (JStr ''obj_p'')]\<rparr>
      = Some (Inl (Exception ''children unavailable''),
              \<lparr>world = 4, logged = [Info_Wiki_Node (JStr ''docx'') (JStr ''obj_p'')]\<rparr>)"
    using ch by (simp add: p_dict_def dict_get_def)
  show ?thesis using a t l' n lp ch' r by blast
qed

theorem single_node_children_error_counterexample:
  "read_wiki small_env (JStr ''p'') (start 0)
     = Some (Inr [(''node'', node_of ''p'' ''docx'' True),
                  (''content'',
                   JObj [(''document'', JObj [(''document_id'', JStr ''obj_p'')]),
                         (''blocks'', JArr []), (''text_content'', JStr [])]),
                  (''children'', JArr [])],
             \<lparr>world = 4,
              logged = [Info_Wiki_Node (JStr ''docx'') (JStr ''obj_p''),
                        Warn_Wiki_Children_Failed (Exception ''children unavailable'')]\<rparr>)"
  by (simp add: read_wiki_def get_wiki_node_info_p as_dict_def Let_def p_dict_def dict_get_def
      wiki_content_def read_docx_small get_wiki_children_small logger_def start_def node_of_def)

lemma node_content_reader:
  "node_content env nd obj_type obj_token s =
     (case content_reader env obj_type of
        None \<Rightarrow> Some (nd, s)
      | Some rd \<Rightarrow>
          (case rd obj_token s of
             None \<Rightarrow> None
           | Some (Inr content, s1) \<Rightarrow> Some (AList.update ''content'' (JObj content) nd, s1)
           | Some (Inl e, s1) \<Rightarrow>
               Some (AList.update ''content_error'' (JStr (str_of_error e)) nd, s1)))"
  by (auto simp: node_content_def content_reader_def split: option.splits sum.splits prod.splits)

lemma read_wiki_nodes_loop_append:
  "read_wiki_nodes_loop env sp (xs @ ys) depth s =
     (case read_wiki_nodes_loop env sp xs depth s of
        None \<Rightarrow> None
      | Some (Inl e, s1) \<Rightarrow> Some (Inl e, s1)
      | Some (Inr xs', s1) \<Rightarrow>
          (case read_wiki_nodes_loop env sp ys depth s1 of
             None \<Rightarrow> None
           | Some (Inl e, s2) \<Rightarrow> Some (Inl e, s2)
           | Some (Inr ys', s2) \<Rightarrow> Some (Inr (xs' @ ys'), s2)))"
proof (induction xs arbitrary: s)
  case Nil
  show ?case
    by (auto split: option.splits sum.splits prod.splits)
next
  case (Cons x xs)
  show ?case
    by (simp only: append_Cons read_wiki_nodes_loop.simps Cons.IH)
      (auto split: option.splits sum.splits prod.splits)
qed

lemma read_wiki_nodes_loop_length:
  "read_wiki_nodes_loop env sp xs depth s = Some (Inr out, s') \<Longrightarrow> length out = length xs"
proof (induction xs arbitrary: s out)
  case Nil
  then show ?case by simp
next
  case (Cons x xs)
  from Cons.prems obtain x' s1 rest' where
    "read_wiki_nodes_loop env sp xs depth s1 = Some (Inr rest', s')" "out = x' # rest'"
    by (auto split: option.splits sum.splits prod.splits)
  then show ?case using Cons.IH by auto
qed

declare read_wiki_node.simps [simp del]
declare read_wiki_nodes_recursive.simps [simp del]

lemma map_of_update_other: "k \<noteq> k' \<Longrightarrow> map_of (AList.update k' v al) k = map_of al k"
  by (simp add: update_conv')

lemma map_of_update_same: "map_of (AList.update k v al) k = Some v"
  by (simp add: update_conv')

lemma read_wiki_node_outcomes:
  assumes "read_wiki_node env sp (JObj d) depth s = Some (r, s')"
  shows "\<exists>nd1 s1. node_content env d (dict_get d ''obj_type'' JNull)
             (dict_get d ''obj_token'' JNull) s = Some (nd1, s1) \<and>
           (r = Inr (JObj nd1) \<or>
            (\<exists>v. r = Inr (JObj (AList.update ''children'' v nd1))) \<or>
            (\<exists>v. r = Inr (JObj (AList.update ''children_error'' v nd1))))"
proof (cases "node_content env d (dict_get d ''obj_type'' JNull) (dict_get d ''obj_token'' JNull) s")
  case None
  with assms show ?thesis
    by (auto simp: read_wiki_node.simps as_dict_def Let_def)
next
  case (Some p)
  obtain nd1 s1 where p: "p = (nd1, s1)" by (cases p)
  note nc = Some[unfolded p]
  show ?thesis
  proof (cases "truthy (dict_get nd1 ''has_child'' (JBool False))")
    case False
    with assms nc show ?thesis
      by (auto simp: read_wiki_node.simps as_dict_def Let_def)
  next
    case True
    show ?thesis
    proof (cases "get_wiki_space_nodes env sp (dict_get d ''node_token'' JNull) s1")
      case None
      with assms nc True show ?thesis
        by (auto simp: read_wiki_node.simps as_dict_def Let_def)
    next
      case (Some q)
      obtain lr s2 where q: "q = (lr, s2)" by (cases q)
      note ls = Some[unfolded q]
      show ?thesis
      proof (cases lr)
        case (Inl e)
        with assms nc True ls show ?thesis
          by (auto simp: read_wiki_node.simps as_dict_def Let_def)
      next
        case (Inr children)
        show ?thesis
        proof (cases "read_wiki_nodes_recursive env sp children (depth + 1) s2")
          case None
          with assms nc True ls Inr show ?thesis
            by (auto simp: read_wiki_node.simps as_dict_def Let_def)
        next
          case (Some w)
          obtain cr s3 where w: "w = (cr, s3)" by (cases w)
          with assms nc True ls Inr Some show ?thesis
            by (cases cr) (auto simp: read_wiki_node.simps as_dict_def Let_def)
        qed
      qed
    qed
  qed
qed

lemma annotation_keys_members:
  "''content'' \<in> annotation_keys" "''content_error'' \<in> annotation_keys"
  "''children'' \<in> annotation_keys" "''children_error'' \<in> annotation_keys"
  by (simp_all add: annotation_keys_def)

lemma annotation_keys_distinct:
  "''content'' \<noteq> ''content_error''" "''children'' \<noteq> ''content''"
  "''children'' \<noteq> ''content_error''" "''children_error'' \<noteq> ''content''"
  "''children_error'' \<noteq> ''content_error''" "''children'' \<noteq> ''children_error''"
  by simp_all

lemma update_keeps_others:
  assumes "\<forall>k'. k' \<notin> annotation_keys \<longrightarrow> map_of nd k' = map_of d k'" and "k \<in> annotation_keys"
  shows "\<forall>k'. k' \<notin> annotation_keys \<longrightarrow> map_of (AList.update k v nd) k' = map_of d k'"
proof (intro allI impI)
  fix k' assume n: "k' \<notin> annotation_keys"
  with assms(2) have "k' \<noteq> k" by blast
  then have "map_of (AList.update k v nd) k' = map_of nd k'"
    by (rule map_of_update_other)
  with assms(1) n show "map_of (AList.update k v nd) k' = map_of d k'" by simp
qed

lemma node_content_annotated:
  assumes "node_content env d (dict_get d ''obj_type'' JNull) (dict_get d ''obj_token'' JNull) s
             = Some (nd1, s1)"
  shows "annotated env d nd1 s"
proof (cases "content_reader env (dict_get d ''obj_type'' JNull)")
  case None
  with assms have "nd1 = d"
    by (simp add: node_content_reader)
  with None show ?thesis
    by (simp add: annotated_def)
next
  case rd: (Some rd)
  show ?thesis
  proof (cases "rd (dict_get d ''obj_token'' JNull) s")
    case None
    with assms rd show ?thesis
      by (simp add: node_content_reader)
  next
    case (Some p)
    obtain cr s2 where p: "p = (cr, s2)" by (cases p)
    show ?thesis
    proof (cases cr)
      case (Inl e)
      with assms rd Some p
      have nd1: "nd1 = AList.update ''content_error'' (JStr (str_of_error e)) d"
        by (simp add: node_content_reader)
      have o: "\<forall>k'. k' \<notin> annotation_keys \<longrightarrow> map_of nd1 k' = map_of d k'"
        unfolding nd1 by (rule update_keeps_others) (simp_all add: annotation_keys_members)
      have c: "map_of nd1 ''content_error'' = Some (JStr (str_of_error e))"
        "map_of nd1 ''content'' = map_of d ''content''"
        unfolding nd1
        by (simp_all only: map_of_update_same map_of_update_other[OF annotation_keys_distinct(1)])
      show ?thesis
        unfolding annotated_def using o c rd Some p Inl by simp
    next
      case (Inr content)
      with assms rd Some p
      have nd1: "nd1 = AList.update ''content'' (JObj content) d"
        by (simp add: node_content_reader)
      have o: "\<forall>k'. k' \<notin> annotation_keys \<longrightarrow> map_of nd1 k' = map_of d k'"
        unfolding nd1 by (rule update_keeps_others) (simp_all add: annotation_keys_members)
      have c: "map_of nd1 ''content'' = Some (JObj content)"
        "map_of nd1 ''content_error'' = map_of d ''content_error''"
        unfolding nd1
        by (simp_all only: map_of_update_same
            map_of_update_other[OF annotation_keys_distinct(1)[symmetric]])
      show ?thesis
        unfolding annotated_def using o c rd Some p Inr by simp
    qed
  qed
qed

lemma annotated_update:
  assumes "annotated env d nd1 s" and "k \<in> annotation_keys"
    and "k \<noteq> ''content''" and "k \<noteq> ''content_error''"
  shows "annotated env d (AList.update k v nd1) s"
proof -
  have o: "\<forall>k'. k' \<notin> annotation_keys \<longrightarrow> map_of (AList.update k v nd1) k' = map_of d k'"
    using assms(1,2) unfolding annotated_def by (intro update_keeps_others) blast+
  have c: "map_of (AList.update k v nd1) ''content'' = map_of nd1 ''content''"
    "map_of (AList.update k v nd1) ''content_error'' = map_of nd1 ''content_error''"
  proof -
    from assms(3) have "''content'' \<noteq> k" by blast
    then show "map_of (AList.update k v nd1) ''content'' = map_of nd1 ''content''"
      by (rule map_of_update_other)
    from assms(4) have "''content_error'' \<noteq> k" by blast
    then show "map_of (AList.update k v nd1) ''content_error'' = map_of nd1 ''content_error''"
      by (rule map_of_update_other)
  qed
  from assms(1) show ?thesis
    unfolding annotated_def c using o by blast
qed

lemma read_wiki_node_annotated:
  assumes "read_wiki_node env sp (JObj d) depth s = Some (r, s')"
  shows "\<exists>d'. r = Inr (JObj d') \<and> annotated env d d' s"
proof -
  from read_wiki_node_outcomes[OF assms] obtain nd1 s1 where
    nc: "node_content env d (dict_get d ''obj_type'' JNull) (dict_get d ''obj_token'' JNull) s
           = Some (nd1, s1)"
    and r: "r = Inr (JObj nd1) \<or>
            (\<exists>v. r = Inr (JObj (AList.update ''children'' v nd1))) \<or>
            (\<exists>v. r = Inr (JObj (AList.update ''children_error'' v nd1)))"
    by blast
  have a: "annotated env d nd1 s"
    using nc by (rule node_content_annotated)
  from r consider "r = Inr (JObj nd1)"
    | v where "r = Inr (JObj (AList.update ''children'' v nd1))"
    | v where "r = Inr (JObj (AList.update ''children_error'' v nd1))"
    by blast
  then show ?thesis
  proof cases
    case 1
    with a show ?thesis by blast
  next
    case 2
    moreover have "annotated env d (AList.update ''children'' v nd1) s"
      using a
      by (rule annotated_update) (simp_all add: annotation_keys_members)
    ultimately show ?thesis by blast
  next
    case 3
    moreover have "annotated env d (AList.update ''children_error'' v nd1) s"
      using a
      by (rule annotated_update) (simp_all add: annotation_keys_members)
    ultimately show ?thesis by blast
  qed
qed

lemma read_wiki_nodes_loop_no_exception:
  "\<forall>n\<in>set xs. \<exists>d. n = JObj d \<Longrightarrow> read_wiki_nodes_loop env sp xs depth s = Some (r, s') \<Longrightarrow>
   \<exists>out. r = Inr out"
proof (induction xs arbitrary: s r)
  case Nil
  then show ?case by auto
next
  case (Cons x xs)
  from Cons.prems(1) obtain d where x: "x = JObj d" by auto
  from Cons.prems(2) obtain rx s1 where n: "read_wiki_node env sp x depth s = Some (rx, s1)"
    by (auto split: option.splits)
  with x obtain d' where rx: "rx = Inr (JObj d')"
    using read_wiki_node_annotated by blast
  from Cons.prems(2) n rx obtain rr where l: "read_wiki_nodes_loop env sp xs depth s1 = Some (rr, s')"
    by (auto split: option.splits sum.splits prod.splits)
  with Cons.IH Cons.prems(1) obtain out where "rr = Inr out" by fastforce
  with Cons.prems(2) n rx l show ?case by auto
qed

lemma read_wiki_nodes_loop_Cons_result:
  assumes "read_wiki_nodes_loop env sp (x # xs) depth s = Some (Inr out, s')"
  shows "\<exists>x' s1 rest'. read_wiki_node env sp x depth s = Some (Inr x', s1) \<and>
           read_wiki_nodes_loop env sp xs depth s1 = Some (Inr rest', s') \<and> out = x' # rest'"
proof (cases "read_wiki_node env sp x depth s")
  case None
  with assms show ?thesis by simp
next
  case (Some p)
  obtain rx s1 where p: "p = (rx, s1)" by (cases p)
  show ?thesis
  proof (cases rx)
    case (Inl e)
    with assms Some p show ?thesis by simp
  next
    case (Inr x')
    show ?thesis
    proof (cases "read_wiki_nodes_loop env sp xs depth s1")
      case None
      with assms Some p Inr show ?thesis by simp
    next
      case l: (Some q)
      obtain rr s2 where q: "q = (rr, s2)" by (cases q)
      with assms Some p Inr l show ?thesis
        by (cases rr) auto
    qed
  qed
qed

lemma read_wiki_nodes_loop_append_result:
  assumes "read_wiki_nodes_loop env sp (xs @ ys) depth s = Some (Inr out, s')"
  shows "\<exists>xs' s1 ys'. read_wiki_nodes_loop env sp xs depth s = Some (Inr xs', s1) \<and>
           read_wiki_nodes_loop env sp ys depth s1 = Some (Inr ys', s') \<and> out = xs' @ ys'"
proof (cases "read_wiki_nodes_loop env sp xs depth s")
  case None
  with assms show ?thesis by (simp add: read_wiki_nodes_loop_append)
next
  case (Some p)
  obtain rx s1 where p: "p = (rx, s1)" by (cases p)
  show ?thesis
  proof (cases rx)
    case (Inl e)
    with assms Some p show ?thesis by (simp add: read_wiki_nodes_loop_append)
  next
    case (Inr xs')
    show ?thesis
    proof (cases "read_wiki_nodes_loop env sp ys depth s1")
      case None
      with assms Some p Inr show ?thesis by (simp add: read_wiki_nodes_loop_append)
    next
      case l: (Some q)
      obtain rr s2 where q: "q = (rr, s2)" by (cases q)
      with assms Some p Inr l show ?thesis
        by (cases rr) (auto simp: read_wiki_nodes_loop_append)
    qed
  qed
qed

lemma read_docx_returns:
  assumes "listings_return env"
  shows "read_docx env tok s \<noteq> None"
proof -
  obtain r s1 where sd: "send env (Request (Docx_Document tok) []) s = (r, s1)"
    by (cases "send env (Request (Docx_Document tok) []) s")
  show ?thesis
  proof (cases r)
    case (Inl e)
    with sd show ?thesis by (simp add: read_docx_def)
  next
    case (Inr doc_info)
    from assms have "get_all_blocks env tok JNull s1 \<noteq> None"
      by (simp add: listings_return_def)
    then obtain br s2 where "get_all_blocks env tok JNull s1 = Some (br, s2)"
      by fastforce
    with sd Inr show ?thesis
      by (cases br) (simp_all add: read_docx_def split: sum.splits)
  qed
qed

lemma table_content_returns:
  assumes "listings_return env"
  shows "table_content env app tbl s \<noteq> None"
proof -
  obtain r s1 where sd: "send env (Request (Bitable_Fields app tbl) []) s = (r, s1)"
    by (cases "send env (Request (Bitable_Fields app tbl) []) s")
  show ?thesis
  proof (cases r)
    case (Inl e)
    with sd show ?thesis by (simp add: table_content_def)
  next
    case (Inr fields_data)
    from assms have "get_all_bitable_records env app tbl s1 \<noteq> None"
      by (simp add: listings_return_def)
    then obtain rr s2 where "get_all_bitable_records env app tbl s1 = Some (rr, s2)"
      by fastforce
    with sd Inr show ?thesis
      by (cases rr) (simp_all add: table_content_def split: sum.splits)
  qed
qed

lemma read_bitable_loop_returns:
  "listings_return env \<Longrightarrow> read_bitable_loop env app tables acc s \<noteq> None"
proof (induction tables arbitrary: acc s)
  case Nil
  show ?case by simp
next
  case (Cons t tables)
  show ?case
  proof (cases "as_dict t")
    case (Inl e)
    then show ?thesis by simp
  next
    case (Inr tb)
    obtain r s1 where tc: "table_content env app (dict_get tb ''table_id'' JNull) s = Some (r, s1)"
      using table_content_returns[OF Cons.prems] by fastforce
    show ?thesis
    proof (cases r)
      case e: (Inl e)
      show ?thesis
        using Inr tc e Cons.IH[OF Cons.prems] by (simp add: Let_def)
    next
      case p: (Inr p)
      obtain fs rs where "p = (fs, rs)" by (cases p)
      with Inr tc p Cons.IH[OF Cons.prems] show ?thesis
        by (simp add: Let_def)
    qed
  qed
qed

lemma read_bitable_returns:
  assumes "listings_return env"
  shows "read_bitable env tok s \<noteq> None"
proof -
  obtain r s1 where sa: "send env (Request (Bitable_App tok) []) s = (r, s1)"
    by (cases "send env (Request (Bitable_App tok) []) s")
  obtain r2 s2 where st: "send env (Request (Bitable_Tables tok) []) s1 = (r2, s2)"
    by (cases "send env (Request (Bitable_Tables tok) []) s1")
  have "read_bitable_loop env tok tables [] s2 \<noteq> None" for tables
    using assms by (rule read_bitable_loop_returns)
  then have l: "\<exists>lr s3. read_bitable_loop env tok tables [] s2 = Some (lr, s3)" for tables
    by fastforce
  show ?thesis
  proof (cases r)
    case (Inl e)
    with sa show ?thesis by (simp add: read_bitable_def)
  next
    case meta: (Inr meta)
    show ?thesis
    proof (cases r2)
      case (Inl e)
      with sa st meta show ?thesis by (simp add: read_bitable_def)
    next
      case td: (Inr tables_data)
      show ?thesis
      proof (cases "py_get tables_data ''items'' (JArr [])")
        case (Inl e)
        with sa st meta td show ?thesis by (simp add: read_bitable_def)
      next
        case tv: (Inr tables_value)
        show ?thesis
        proof (cases "py_iter tables_value")
          case (Inl e)
          with sa st meta td tv show ?thesis by (simp add: read_bitable_def)
        next
          case ts: (Inr tables)
          from l[of tables] obtain lr s3 where
            "read_bitable_loop env tok tables [] s2 = Some (lr, s3)"
            by blast
          with sa st meta td tv ts show ?thesis
            by (cases lr) (simp_all add: read_bitable_def split: sum.splits)
        qed
      qed
    qed
  qed
qed

lemma node_content_returns:
  assumes "listings_return env"
  shows "node_content env nd obj_type obj_token s \<noteq> None"
proof -
  obtain r1 t1 where d: "read_docx env obj_token s = Some (r1, t1)"
    using read_docx_returns[OF assms, of obj_token s] by fastforce
  obtain r2 t2 where b: "read_bitable env obj_token s = Some (r2, t2)"
    using read_bitable_returns[OF assms, of obj_token s] by fastforce
  obtain r3 t3 where sh: "read_sheet env obj_token s = (r3, t3)"
    by (cases "read_sheet env obj_token s")
  show ?thesis
    unfolding node_content_def d b sh
    by (cases r1; cases r2; cases r3) simp_all
qed

lemma traversal_returns:
  fixes env :: "'w env"
  shows "listings_return env \<Longrightarrow> read_wiki_nodes_recursive env sp nodes depth s \<noteq> None"
    and "listings_return env \<Longrightarrow> read_wiki_nodes_loop env sp nodes depth s \<noteq> None"
    and "listings_return env \<Longrightarrow> read_wiki_node env sp node depth s \<noteq> None"
proof (induction env sp nodes depth s and env sp nodes depth s and env sp node depth s
    rule: read_wiki_nodes_recursive_read_wiki_nodes_loop_read_wiki_node.induct)
  case (1 env space_id nodes depth s)
  then show ?case
    by (cases "depth > 5") (simp_all add: read_wiki_nodes_recursive.simps)
next
  case (2 env space_id depth s)
  show ?case by simp
next
  case (3 env space_id node rest depth s)
  from "3.IH"(1)[OF "3.prems"] obtain rx s1 where
    n: "read_wiki_node env space_id node depth s = Some (rx, s1)"
    by fastforce
  show ?case
  proof (cases rx)
    case (Inl e)
    with n show ?thesis by simp
  next
    case (Inr x')
    from "3.IH"(2)[OF n[unfolded Inr] refl refl "3.prems"] obtain rr s2 where
      "read_wiki_nodes_loop env space_id rest depth s1 = Some (rr, s2)"
      by fastforce
    with n Inr show ?thesis
      by (cases rr) simp_all
  qed
next
  case (4 env space_id node depth s)
  show ?case
  proof (cases "as_dict node")
    case (Inl e)
    then show ?thesis by (simp add: read_wiki_node.simps)
  next
    case (Inr nd)
    obtain nd1 s1 where
      nc: "node_content env nd (dict_get nd ''obj_type'' JNull) (dict_get nd ''obj_token'' JNull) s
             = Some (nd1, s1)"
      using node_content_returns[OF "4.prems"] by fastforce
    show ?thesis
    proof (cases "truthy (dict_get nd1 ''has_child'' (JBool False))")
      case False
      with Inr nc show ?thesis
        by (simp add: read_wiki_node.simps Let_def)
    next
      case True
      obtain lr s2 where
        ls: "get_wiki_space_nodes env space_id (dict_get nd ''node_token'' JNull) s1 = Some (lr, s2)"
        using "4.prems" unfolding listings_return_def by fastforce
      show ?thesis
      proof (cases lr)
        case (Inl e)
        with Inr nc True ls show ?thesis
          by (simp add: read_wiki_node.simps Let_def)
      next
        case ch: (Inr children)
        from "4.IH"[OF Inr refl refl refl nc refl True ls[unfolded ch] refl refl "4.prems"]
        obtain cr s3 where
          "read_wiki_nodes_recursive env space_id children (depth + 1) s2 = Some (cr, s3)"
          by fastforce
        with Inr nc True ls ch show ?thesis
          by (cases cr) (simp_all add: read_wiki_node.simps Let_def)
      qed
    qed
  qed
qed

text \<open>
  Claim C4. The traversal of a list of node dicts at a depth of at most 5 returns,
  provided that each listing the platform is asked for ends, and it returns a list and
  no exception, with one entry for each node, in the same order. Entry \<open>i\<close> is node \<open>i\<close>
  with other values only under the four annotation keys, and its \<^verbatim>\<open>content\<close> and
  \<^verbatim>\<open>content_error\<close> are those of the read of its own content (in the state reached
  after the nodes before it): \<^verbatim>\<open>content_error\<close> with the text of the exception when
  that read fails, \<^verbatim>\<open>content\<close> when it succeeds. A failing read changes no other entry
  and does not end the traversal. Whenever the traversal returns, with or without the
  proviso, what it returns is of this form.
\<close>

theorem content_failure_isolated:
  assumes "\<forall>n\<in>set nodes. \<exists>d. n = JObj d"
    and "depth \<le> 5"
  shows "(listings_return env \<longrightarrow>
           (\<exists>out s'. read_wiki_nodes_recursive env sp nodes depth s = Some (Inr out, s') \<and>
              length out = length nodes \<and>
              (\<forall>i<length nodes. \<exists>d d' si.
                  nodes ! i = JObj d \<and> out ! i = JObj d' \<and>
                  read_wiki_nodes_loop env sp (take i nodes) depth s
                    = Some (Inr (take i out), si) \<and>
                  annotated env d d' si)))
       \<and> (read_wiki_nodes_recursive env sp nodes depth s = Some (r, s') \<longrightarrow>
           (\<exists>out. r = Inr out \<and> length out = length nodes \<and>
              (\<forall>i<length nodes. \<exists>d d' si.
                  nodes ! i = JObj d \<and> out ! i = JObj d' \<and>
                  read_wiki_nodes_loop env sp (take i nodes) depth s
                    = Some (Inr (take i out), si) \<and>
                  annotated env d d' si)))"
proof -
  have part: "\<exists>out. r = Inr out \<and> length out = length nodes \<and>
           (\<forall>i<length nodes. \<exists>d d' si.
               nodes ! i = JObj d \<and> out ! i = JObj d' \<and>
               read_wiki_nodes_loop env sp (take i nodes) depth s = Some (Inr (take i out), si) \<and>
               annotated env d d' si)"
    if ret: "read_wiki_nodes_recursive env sp nodes depth s = Some (r, s')" for r s'
  proof -
    from ret assms(2) have run: "read_wiki_nodes_loop env sp nodes depth s = Some (r, s')"
      by (simp add: read_wiki_nodes_recursive.simps)
    with assms(1) obtain out where r: "r = Inr out"
      using read_wiki_nodes_loop_no_exception by blast
    have len: "length out = length nodes"
      using run r read_wiki_nodes_loop_length by blast
    have "\<exists>d d' si. nodes ! i = JObj d \<and> out ! i = JObj d' \<and>
            read_wiki_nodes_loop env sp (take i nodes) depth s = Some (Inr (take i out), si) \<and>
            annotated env d d' si" if i: "i < length nodes" for i
    proof -
      have split: "nodes = take i nodes @ nodes ! i # drop (Suc i) nodes"
        using i by (rule id_take_nth_drop)
      from assms(1) i obtain d where d: "nodes ! i = JObj d"
        using nth_mem by blast
      have "read_wiki_nodes_loop env sp (take i nodes @ nodes ! i # drop (Suc i) nodes) depth s
              = Some (Inr out, s')"
        using run r split by simp
      from read_wiki_nodes_loop_append_result[OF this] obtain xs' si ys' where
        pre: "read_wiki_nodes_loop env sp (take i nodes) depth s = Some (Inr xs', si)"
        and post: "read_wiki_nodes_loop env sp (nodes ! i # drop (Suc i) nodes) depth si
                     = Some (Inr ys', s')"
        and out: "out = xs' @ ys'"
        by blast
      have lx: "length xs' = i"
        using read_wiki_nodes_loop_length[OF pre] i by simp
      from read_wiki_nodes_loop_Cons_result[OF post] obtain x' s1 rest' where
        node: "read_wiki_node env sp (nodes ! i) depth si = Some (Inr x', s1)"
        and ys: "ys' = x' # rest'"
        by blast
      from read_wiki_node_annotated[OF node[unfolded d]] obtain d' where
        d': "x' = JObj d'" and ann: "annotated env d d' si"
        by blast
      have "out ! i = JObj d'"
        using out ys lx d' by (simp add: nth_append)
      moreover have "take i out = xs'"
        using out lx by simp
      ultimately show ?thesis
        using d pre ann by blast
    qed
    with r len show ?thesis by blast
  qed
  show ?thesis
  proof (intro conjI impI)
    assume "listings_return env"
    then have "read_wiki_nodes_recursive env sp nodes depth s \<noteq> None"
      by (rule traversal_returns(1))
    then obtain r s' where ret: "read_wiki_nodes_recursive env sp nodes depth s = Some (r, s')"
      by fastforce
    from part[OF ret] ret
    show "\<exists>out s'. read_wiki_nodes_recursive env sp nodes depth s = Some (Inr out, s') \<and>
              length out = length nodes \<and>
              (\<forall>i<length nodes. \<exists>d d' si.
                  nodes ! i = JObj d \<and> out ! i = JObj d' \<and>
                  read_wiki_nodes_loop env sp (take i nodes) depth s
                    = Some (Inr (take i out), si) \<and>
                  annotated env d d' si)"
      by blast
  next
    assume "read_wiki_nodes_recursive env sp nodes depth s = Some (r, s')"
    then show "\<exists>out. r = Inr out \<and> length out = length nodes \<and>
              (\<forall>i<length nodes. \<exists>d d' si.
                  nodes ! i = JObj d \<and> out ! i = JObj d' \<and>
                  read_wiki_nodes_loop env sp (take i nodes) depth s
                    = Some (Inr (take i out), si) \<and>
                  annotated env d d' si)"
      by (rule part)
  qed
qed

lemma read_wiki_node_small_leaf:
  "tok \<noteq> ''b'' \<Longrightarrow>
   read_wiki_node small_env sp (node_of tok ''docx'' False) depth s
     = Some (Inr (JObj [(''node_token'', JStr tok), (''obj_type'', JStr ''docx''),
            (''obj_token'', JStr (''obj_'' @ tok)), (''has_child'', JBool False),
            (''space_id'', JStr ''space''),
            (''content'', JObj [(''document'', JObj [(''document_id'', JStr (''obj_'' @ tok))]),
                                (''blocks'', JArr []), (''text_content'', JStr [])])]),
             s\<lparr>world := world s + 2\<rparr>)"
  by (simp add: read_wiki_node.simps node_of_def as_dict_def dict_get_def Let_def
      node_content_def read_docx_small)

lemma read_wiki_node_small_denied:
  "read_wiki_node small_env sp (node_of ''b'' ''docx'' False) depth s
     = Some (Inr (JObj [(''node_token'', JStr ''b''), (''obj_type'', JStr ''docx''),
            (''obj_token'', JStr ''obj_b''), (''has_child'', JBool False),
            (''space_id'', JStr ''space''),
            (''content_error'', JStr ''permission denied'')]),
             s\<lparr>world := world s + 1\<rparr>)"
  by (simp add: read_wiki_node.simps node_of_def as_dict_def dict_get_def Let_def
      node_content_def read_docx_small_denied)

lemma read_root_nodes:
  "read_wiki_nodes_recursive small_env (JStr ''space'') root_nodes 0 (start 0)
     = Some (Inr root_nodes_read, \<lparr>world = 5, logged = []\<rparr>)"
  by (simp add: read_wiki_nodes_recursive.simps root_nodes_def root_nodes_read_def
      read_wiki_node_small_leaf read_wiki_node_small_denied start_def)

lemma get_all_bitable_records_small:
  "get_all_bitable_records small_env app tbl s
     = Some (Inl (Exception ''not found''), s\<lparr>world := world s + 1\<rparr>)"
  unfolding get_all_bitable_records_def
  by (subst get_all_bitable_records_loop.simps)
    (simp add: send_small_env small_wiki_def)

lemma get_wiki_space_nodes_small_top:
  "\<not> truthy parent \<Longrightarrow>
   get_wiki_space_nodes small_env sp parent s
     = Some (Inr [node_of ''a'' ''docx'' False, node_of ''b'' ''docx'' False,
                  node_of ''c'' ''docx'' False], s\<lparr>world := world s + 1\<rparr>)"
  unfolding get_wiki_space_nodes_def
  by (subst get_wiki_space_nodes_loop.simps)
    (simp add: send_small_env small_wiki_def with_page_token_def dict_get_def py_extend_def)

lemma listings_return_small_env: "listings_return small_env"
  unfolding listings_return_def
proof (intro conjI allI)
  fix doc_token :: json and s :: "nat state"
  show "get_all_blocks small_env doc_token JNull s \<noteq> None"
    by (simp add: get_all_blocks_small)
next
  fix app_token table_id :: json and s :: "nat state"
  show "get_all_bitable_records small_env app_token table_id s \<noteq> None"
    by (simp add: get_all_bitable_records_small)
next
  fix space_id parent_token :: json and s :: "nat state"
  show "get_wiki_space_nodes small_env space_id parent_token s \<noteq> None"
    by (cases "truthy parent_token")
      (simp_all add: get_wiki_space_nodes_small_children get_wiki_space_nodes_small_top)
qed

theorem content_failure_isolated_witness:
  "(0::int) \<le> 5
   \<and> listings_return small_env
   \<and> read_wiki_nodes_recursive small_env (JStr ''space'') root_nodes 0 (start 0)
       = Some (Inr root_nodes_read, \<lparr>world = 5, logged = []\<rparr>)
   \<and> length root_nodes_read = 3
   \<and> (\<exists>d d' si. root_nodes ! 1 = JObj d \<and> root_nodes_read ! 1 = JObj d' \<and>
          annotated small_env d d' si \<and>
          map_of d' ''content_error'' = Some (JStr ''permission denied'') \<and>
          map_of d' ''content'' = None)
   \<and> (\<exists>d d' si. root_nodes ! 0 = JObj d \<and> root_nodes_read ! 0 = JObj d' \<and>
          annotated small_env d d' si \<and>
          map_of d' ''content_error'' = None \<and> map_of d' ''content'' \<noteq> None)
   \<and> (\<exists>d d' si. root_nodes ! 2 = JObj d \<and> root_nodes_read ! 2 = JObj d' \<and>
          annotated small_env d d' si \<and>
          map_of d' ''content_error'' = None \<and> map_of d' ''content'' \<noteq> None)"
proof -
  have dicts: "\<forall>n\<in>set root_nodes. \<exists>d. n = JObj d"
    by (simp add: root_nodes_def node_of_def)
  have le: "(0::int) \<le> 5" by simp
  from content_failure_isolated[OF dicts le, THEN conjunct1, THEN mp, OF listings_return_small_env,
      of "JStr ''space''" "start 0"]
  obtain out s' where
    ret: "read_wiki_nodes_recursive small_env (JStr ''space'') root_nodes 0 (start 0)
            = Some (Inr out, s')"
    and len: "length out = length root_nodes"
    and each: "\<forall>i<length root_nodes. \<exists>d d' si.
               root_nodes ! i = JObj d \<and> out ! i = JObj d' \<and>
               read_wiki_nodes_loop small_env (JStr ''space'') (take i root_nodes) 0 (start 0)
                 = Some (Inr (take i out), si) \<and>
               annotated small_env d d' si"
    by blast
  from ret have out: "out = root_nodes_read"
    by (simp add: read_root_nodes)
  have l: "0 < length root_nodes" "1 < length root_nodes" "2 < length root_nodes"
    by (simp_all add: root_nodes_def)
  from each l(2) obtain d d' si where
    d: "root_nodes ! 1 = JObj d" and d': "root_nodes_read ! 1 = JObj d'"
    and ann: "annotated small_env d d' si"
    unfolding out by blast
  have c: "map_of d' ''content_error'' = Some (JStr ''permission denied'')"
    "map_of d' ''content'' = None"
    using d' by (auto simp: root_nodes_read_def)
  from each l(1) obtain d0 d0' si0 where
    d0: "root_nodes ! 0 = JObj d0" and d0': "root_nodes_read ! 0 = JObj d0'"
    and ann0: "annotated small_env d0 d0' si0"
    unfolding out by blast
  have c0: "map_of d0' ''content_error'' = None" "map_of d0' ''content'' \<noteq> None"
    using d0' by (auto simp: root_nodes_read_def)
  from each l(3) obtain d2 d2' si2 where
    d2: "root_nodes ! 2 = JObj d2" and d2': "root_nodes_read ! 2 = JObj d2'"
    and ann2: "annotated small_env d2 d2' si2"
    unfolding out by blast
  have c2: "map_of d2' ''content_error'' = None" "map_of d2' ''content'' \<noteq> None"
    using d2' by (auto simp: root_nodes_read_def)
  have "length root_nodes_read = 3"
    using len out by (simp add: root_nodes_def)
  moreover have "\<exists>d d' si. root_nodes ! 1 = JObj d \<and> root_nodes_read ! 1 = JObj d' \<and>
          annotated small_env d d' si \<and>
          map_of d' ''content_error'' = Some (JStr ''permission denied'') \<and>
          map_of d' ''content'' = None"
    using d d' ann c by blast
  moreover have "\<exists>d d' si. root_nodes ! 0 = JObj d \<and> root_nodes_read ! 0 = JObj d' \<and>
          annotated small_env d d' si \<and>
          map_of d' ''content_error'' = None \<and> map_of d' ''content'' \<noteq> None"
    using d0 d0' ann0 c0 by blast
  moreover have "\<exists>d d' si. root_nodes ! 2 = JObj d \<and> root_nodes_read ! 2 = JObj d' \<and>
          annotated small_env d d' si \<and>
          map_of d' ''content_error'' = None \<and> map_of d' ''content'' \<noteq> None"
    using d2 d2' ann2 c2 by blast
  ultimately show ?thesis
    using le listings_return_small_env read_root_nodes by (intro conjI)
qed

lemma get_wiki_space_nodes_loop_fresh:
  fixes env :: "'w env"
  assumes "get_wiki_space_nodes_loop env sp par pt acc s = Some (Inr nodes, s')"
    and "fresh_listings env" and "\<forall>n\<in>set acc. annotation_free n"
  shows "\<forall>n\<in>set nodes. annotation_free n"
proof -
  have "fresh_listings env \<longrightarrow> (\<forall>n\<in>set acc. annotation_free n) \<longrightarrow>
        (\<forall>ns t. ((Inr nodes, s') :: (error + json list) \<times> 'w state) = (Inr ns, t) \<longrightarrow>
            (\<forall>n\<in>set ns. annotation_free n))"
  proof (rule get_wiki_space_nodes_loop.raw_induct
      [where P = "\<lambda>(env :: 'w env) sp par pt acc s (y :: (error + json list) \<times> 'w state).
          fresh_listings env \<longrightarrow>
          (\<forall>n\<in>set acc. annotation_free n) \<longrightarrow>
          (\<forall>ns t. y = (Inr ns, t) \<longrightarrow> (\<forall>n\<in>set ns. annotation_free n))",
        OF _ assms(1)], goal_cases)
    case (1 loop env sp par pt acc s y)
    let ?rq = "Request (Wiki_Space_Nodes sp)
        (with_page_token
           (if truthy par then AList.update ''parent_node_token'' par [(''page_size'', JInt 50)]
            else [(''page_size'', JInt 50)]) pt)"
    show ?case
    proof (intro impI allI)
      fix ns t
      assume fr: "fresh_listings env" and ac: "\<forall>n\<in>set acc. annotation_free n"
        and y: "y = (Inr ns, t)"
      obtain r w where rw: "make_request env ?rq (world s) = (r, w)"
        by (cases "make_request env ?rq (world s)")
      show "\<forall>n\<in>set ns. annotation_free n"
      proof (cases r)
        case (Inl e)
        with 1(2) rw y show ?thesis by (simp add: send_def)
      next
        case data: (Inr data)
        show ?thesis
        proof (cases "py_get data ''items'' (JArr [])")
          case (Inl e)
          with 1(2) rw data y show ?thesis by (simp add: send_def)
        next
          case v: (Inr v)
          show ?thesis
          proof (cases "py_iter v")
            case (Inl e)
            with 1(2) rw data v y show ?thesis by (simp add: send_def py_extend_def)
          next
            case xs: (Inr xs)
            have "\<forall>n\<in>set xs. annotation_free n"
              using fr rw data v xs unfolding fresh_listings_def by blast
            then have acc': "\<forall>n\<in>set (acc @ xs). annotation_free n"
              using ac by auto
            from 1(2) rw data v xs
            have body: "(case py_get data ''has_more'' (JBool False) of
                     Inl e \<Rightarrow> Some (Inl e, s\<lparr>world := w\<rparr>)
                   | Inr has_more \<Rightarrow>
                       if \<not> truthy has_more then Some (Inr (acc @ xs), s\<lparr>world := w\<rparr>)
                       else (case py_get data ''page_token'' JNull of
                               Inl e \<Rightarrow> Some (Inl e, s\<lparr>world := w\<rparr>)
                             | Inr page_token' \<Rightarrow>
                                 loop env sp par page_token' (acc @ xs) (s\<lparr>world := w\<rparr>)))
                  = Some y"
              by (simp add: send_def py_extend_def)
            show ?thesis
            proof (cases "py_get data ''has_more'' (JBool False)")
              case (Inl e)
              with body y show ?thesis by simp
            next
              case hm: (Inr has_more)
              show ?thesis
              proof (cases "truthy has_more")
                case False
                with body hm y acc' show ?thesis by simp
              next
                case True
                show ?thesis
                proof (cases "py_get data ''page_token'' JNull")
                  case (Inl e)
                  with body hm True y show ?thesis by simp
                next
                  case (Inr page_token')
                  with body hm True
                  have "loop env sp par page_token' (acc @ xs) (s\<lparr>world := w\<rparr>) = Some y"
                    by simp
                  from 1(1)[OF this] fr acc' y show ?thesis by blast
                qed
              qed
            qed
          qed
        qed
      qed
    qed
  qed
  with assms(2,3) show ?thesis by blast
qed

lemma get_wiki_space_nodes_fresh:
  assumes "get_wiki_space_nodes env sp par s = Some (Inr nodes, s')" and "fresh_listings env"
  shows "\<forall>n\<in>set nodes. annotation_free n"
  using get_wiki_space_nodes_loop_fresh[OF assms(1)[unfolded get_wiki_space_nodes_def] assms(2)]
  by simp

lemma annotation_free_dict:
  assumes "annotation_free (JObj d)"
  shows "map_of d ''content'' = None" "map_of d ''content_error'' = None"
    "map_of d ''children'' = None" "map_of d ''children_error'' = None"
  using assms annotation_keys_members unfolding annotation_free_def by auto

lemma annotation_free_exclusive_to:
  assumes "annotation_free n"
  shows "exclusive_to k n"
proof (cases n)
  case (JObj d)
  note f = annotation_free_dict[OF assms[unfolded JObj]]
  have e: "exclusive n"
    unfolding JObj exclusive_def using f by simp
  have c: "children_of n = []"
    unfolding JObj children_of_def using f by simp
  show ?thesis
    using e c by (cases k) simp_all
qed (cases k; simp add: exclusive_def children_of_def)+

lemma node_content_shape:
  assumes "node_content env d obj_type obj_token s = Some (nd1, s1)"
  shows "nd1 = d \<or> (\<exists>c. nd1 = AList.update ''content'' c d) \<or>
         (\<exists>m. nd1 = AList.update ''content_error'' m d)"
proof (cases "content_reader env obj_type")
  case None
  with assms show ?thesis by (simp add: node_content_reader)
next
  case rd: (Some rd)
  show ?thesis
  proof (cases "rd obj_token s")
    case None
    with assms rd show ?thesis by (simp add: node_content_reader)
  next
    case (Some p)
    obtain cr s2 where p: "p = (cr, s2)" by (cases p)
    with assms rd Some show ?thesis
      by (cases cr) (auto simp: node_content_reader)
  qed
qed

text \<open>A node after the first \<^verbatim>\<open>try\<close> block, when it came without annotations.\<close>

lemma node_content_fresh:
  assumes "node_content env d obj_type obj_token s = Some (nd1, s1)"
    and "annotation_free (JObj d)"
  shows "map_of nd1 ''children'' = None" "map_of nd1 ''children_error'' = None"
    "map_of nd1 ''content'' = None \<or> map_of nd1 ''content_error'' = None"
proof -
  note f = annotation_free_dict[OF assms(2)]
  from node_content_shape[OF assms(1)]
  consider "nd1 = d" | c where "nd1 = AList.update ''content'' c d"
    | m where "nd1 = AList.update ''content_error'' m d"
    by blast
  then have all: "map_of nd1 ''children'' = None \<and> map_of nd1 ''children_error'' = None \<and>
      (map_of nd1 ''content'' = None \<or> map_of nd1 ''content_error'' = None)"
  proof cases
    case 1
    with f show ?thesis by simp
  next
    case 2
    show ?thesis
      unfolding 2 using f
      by (simp add: map_of_update_other[OF annotation_keys_distinct(2)]
          map_of_update_other[OF annotation_keys_distinct(4)]
          map_of_update_other[OF annotation_keys_distinct(1)[symmetric]])
  next
    case 3
    show ?thesis
      unfolding 3 using f
      by (simp add: map_of_update_other[OF annotation_keys_distinct(3)]
          map_of_update_other[OF annotation_keys_distinct(5)]
          map_of_update_other[OF annotation_keys_distinct(1)])
  qed
  show "map_of nd1 ''children'' = None"
    using all by (rule conjunct1)
  show "map_of nd1 ''children_error'' = None"
    using all[THEN conjunct2] by (rule conjunct1)
  show "map_of nd1 ''content'' = None \<or> map_of nd1 ''content_error'' = None"
    using all[THEN conjunct2] by (rule conjunct2)
qed

lemma exclusive_to_plain:
  assumes "map_of nd1 ''children'' = None"
    and "map_of nd1 ''content'' = None \<or> map_of nd1 ''content_error'' = None"
  shows "exclusive_to k (JObj nd1)"
proof -
  have "exclusive (JObj nd1)"
    using assms by (auto simp: exclusive_def)
  moreover have "children_of (JObj nd1) = []"
    using assms(1) by (simp add: children_of_def)
  ultimately show ?thesis by (cases k) simp_all
qed

lemma exclusive_to_children_error:
  assumes "map_of nd1 ''children'' = None"
    and "map_of nd1 ''content'' = None \<or> map_of nd1 ''content_error'' = None"
  shows "exclusive_to k (JObj (AList.update ''children_error'' v nd1))"
proof (rule exclusive_to_plain)
  show "map_of (AList.update ''children_error'' v nd1) ''children'' = None"
    using assms(1) by (simp add: map_of_update_other[OF annotation_keys_distinct(6)])
  show "map_of (AList.update ''children_error'' v nd1) ''content'' = None \<or>
        map_of (AList.update ''children_error'' v nd1) ''content_error'' = None"
    using assms(2)
    by (simp add: map_of_update_other[OF annotation_keys_distinct(4)[symmetric]]
        map_of_update_other[OF annotation_keys_distinct(5)[symmetric]])
qed

lemma exclusive_to_children:
  assumes "map_of nd1 ''children_error'' = None"
    and "map_of nd1 ''content'' = None \<or> map_of nd1 ''content_error'' = None"
    and "\<forall>c\<in>set cs. \<forall>j. exclusive_to j c"
  shows "exclusive_to k (JObj (AList.update ''children'' (JArr cs) nd1))"
proof -
  let ?d = "AList.update ''children'' (JArr cs) nd1"
  have ce: "map_of ?d ''children_error'' = None"
    using assms(1) by (simp add: map_of_update_other[OF annotation_keys_distinct(6)[symmetric]])
  have co: "map_of ?d ''content'' = None \<or> map_of ?d ''content_error'' = None"
    using assms(2)
    by (simp add: map_of_update_other[OF annotation_keys_distinct(2)[symmetric]]
        map_of_update_other[OF annotation_keys_distinct(3)[symmetric]])
  have e: "exclusive (JObj ?d)"
    using ce co by (auto simp: exclusive_def)
  have c: "children_of (JObj ?d) = cs"
    by (simp add: children_of_def map_of_update_same)
  show ?thesis
    using e c assms(3) by (cases k) simp_all
qed

lemma read_wiki_node_result:
  assumes "read_wiki_node env sp node depth s = Some (Inr out, s')"
  shows "\<exists>d nd1 s1. node = JObj d \<and>
           node_content env d (dict_get d ''obj_type'' JNull) (dict_get d ''obj_token'' JNull) s
             = Some (nd1, s1) \<and>
           ((\<not> truthy (dict_get nd1 ''has_child'' (JBool False)) \<and> out = JObj nd1) \<or>
            (truthy (dict_get nd1 ''has_child'' (JBool False)) \<and>
             (\<exists>v. out = JObj (AList.update ''children_error'' v nd1))) \<or>
            (truthy (dict_get nd1 ''has_child'' (JBool False)) \<and>
             (\<exists>children s2 cs'.
                get_wiki_space_nodes env sp (dict_get d ''node_token'' JNull) s1
                  = Some (Inr children, s2) \<and>
                read_wiki_nodes_recursive env sp children (depth + 1) s2 = Some (Inr cs', s') \<and>
                out = JObj (AList.update ''children'' (JArr cs') nd1))))"
proof (cases "as_dict node")
  case (Inl e)
  with assms show ?thesis
    by (simp add: read_wiki_node.simps)
next
  case (Inr d)
  then have node: "node = JObj d"
    by (cases node) (simp_all add: as_dict_def)
  show ?thesis
  proof (cases "node_content env d (dict_get d ''obj_type'' JNull) (dict_get d ''obj_token'' JNull) s")
    case None
    with assms Inr show ?thesis
      by (simp add: read_wiki_node.simps Let_def)
  next
    case (Some p)
    obtain nd1 s1 where p: "p = (nd1, s1)" by (cases p)
    note nc = Some[unfolded p]
    show ?thesis
    proof (cases "truthy (dict_get nd1 ''has_child'' (JBool False))")
      case False
      with assms Inr nc have "out = JObj nd1"
        by (simp add: read_wiki_node.simps Let_def)
      with node nc False show ?thesis by blast
    next
      case True
      show ?thesis
      proof (cases "get_wiki_space_nodes env sp (dict_get d ''node_token'' JNull) s1")
        case None
        with assms Inr nc True show ?thesis
          by (simp add: read_wiki_node.simps Let_def)
      next
        case (Some q)
        obtain lr s2 where q: "q = (lr, s2)" by (cases q)
        note ls = Some[unfolded q]
        show ?thesis
        proof (cases lr)
          case e: (Inl e)
          with assms Inr nc True ls
          have "out = JObj (AList.update ''children_error'' (JStr (str_of_error e)) nd1)"
            by (simp add: read_wiki_node.simps Let_def)
          with node nc True show ?thesis by blast
        next
          case ch: (Inr children)
          show ?thesis
          proof (cases "read_wiki_nodes_recursive env sp children (depth + 1) s2")
            case None
            with assms Inr nc True ls ch show ?thesis
              by (simp add: read_wiki_node.simps Let_def)
          next
            case (Some w)
            obtain cr s3 where w: "w = (cr, s3)" by (cases w)
            note rc = Some[unfolded w]
            show ?thesis
            proof (cases cr)
              case e: (Inl e)
              with assms Inr nc True ls ch rc
              have "out = JObj (AList.update ''children_error'' (JStr (str_of_error e)) nd1)"
                by (simp add: read_wiki_node.simps Let_def)
              with node nc True show ?thesis by blast
            next
              case cs: (Inr cs')
              with assms Inr nc True ls ch rc
              have "out = JObj (AList.update ''children'' (JArr cs') nd1)" and "s3 = s'"
                by (simp_all add: read_wiki_node.simps Let_def)
              with node nc True ls ch rc cs show ?thesis by blast
            qed
          qed
        qed
      qed
    qed
  qed
qed

lemma traversal_exclusive:
  fixes env :: "'w env"
  shows "fresh_listings env \<Longrightarrow> \<forall>n\<in>set nodes. annotation_free n \<Longrightarrow>
         read_wiki_nodes_recursive env sp nodes depth s = Some (Inr out, s') \<Longrightarrow>
         \<forall>n\<in>set out. \<forall>k. exclusive_to k n"
    and "fresh_listings env \<Longrightarrow> \<forall>n\<in>set nodes. annotation_free n \<Longrightarrow>
         read_wiki_nodes_loop env sp nodes depth s = Some (Inr out, s') \<Longrightarrow>
         \<forall>n\<in>set out. \<forall>k. exclusive_to k n"
    and "fresh_listings env \<Longrightarrow> annotation_free node \<Longrightarrow>
         read_wiki_node env sp node depth s = Some (Inr out1, s') \<Longrightarrow>
         \<forall>k. exclusive_to k out1"
proof (induction env sp nodes depth s and env sp nodes depth s and env sp node depth s
    arbitrary: out s' and out s' and out1 s'
    rule: read_wiki_nodes_recursive_read_wiki_nodes_loop_read_wiki_node.induct)
  case (1 env space_id nodes depth s)
  show ?case
  proof (cases "depth > 5")
    case True
    with "1.prems"(3) have "out = nodes"
      by (simp add: read_wiki_nodes_recursive.simps)
    with "1.prems"(2) show ?thesis
      by (simp add: annotation_free_exclusive_to)
  next
    case False
    with "1.prems"(3) have "read_wiki_nodes_loop env space_id nodes depth s = Some (Inr out, s')"
      by (simp add: read_wiki_nodes_recursive.simps)
    from "1.IH"[OF False "1.prems"(1,2) this] show ?thesis .
  qed
next
  case (2 env space_id depth s)
  then show ?case by simp
next
  case (3 env space_id node rest depth s)
  from read_wiki_nodes_loop_Cons_result[OF "3.prems"(3)] obtain x' s1 rest' where
    n: "read_wiki_node env space_id node depth s = Some (Inr x', s1)"
    and r: "read_wiki_nodes_loop env space_id rest depth s1 = Some (Inr rest', s')"
    and out: "out = x' # rest'"
    by blast
  have "\<forall>k. exclusive_to k x'"
    using "3.IH"(1)[OF "3.prems"(1) _ n] "3.prems"(2) by simp
  moreover have "\<forall>n\<in>set rest'. \<forall>k. exclusive_to k n"
    using "3.IH"(2)[OF n refl refl "3.prems"(1) _ r] "3.prems"(2) by simp
  ultimately show ?case
    using out by simp
next
  case (4 env space_id node depth s)
  from read_wiki_node_result[OF "4.prems"(3)] obtain d nd1 s1 where
    node: "node = JObj d"
    and nc: "node_content env d (dict_get d ''obj_type'' JNull) (dict_get d ''obj_token'' JNull) s
               = Some (nd1, s1)"
    and res: "(\<not> truthy (dict_get nd1 ''has_child'' (JBool False)) \<and> out1 = JObj nd1) \<or>
            (truthy (dict_get nd1 ''has_child'' (JBool False)) \<and>
             (\<exists>v. out1 = JObj (AList.update ''children_error'' v nd1))) \<or>
            (truthy (dict_get nd1 ''has_child'' (JBool False)) \<and>
             (\<exists>children s2 cs'.
                get_wiki_space_nodes env space_id (dict_get d ''node_token'' JNull) s1
                  = Some (Inr children, s2) \<and>
                read_wiki_nodes_recursive env space_id children (depth + 1) s2 = Some (Inr cs', s') \<and>
                out1 = JObj (AList.update ''children'' (JArr cs') nd1)))"
    by blast
  note f = node_content_fresh[OF nc "4.prems"(2)[unfolded node]]
  from res consider
    (plain) "out1 = JObj nd1"
    | (err) v where "out1 = JObj (AList.update ''children_error'' v nd1)"
    | (rec) children s2 cs' where "truthy (dict_get nd1 ''has_child'' (JBool False))"
        "get_wiki_space_nodes env space_id (dict_get d ''node_token'' JNull) s1
           = Some (Inr children, s2)"
        "read_wiki_nodes_recursive env space_id children (depth + 1) s2 = Some (Inr cs', s')"
        "out1 = JObj (AList.update ''children'' (JArr cs') nd1)"
    by blast
  then show ?case
  proof cases
    case plain
    show ?thesis
      unfolding plain using f by (intro allI exclusive_to_plain)
  next
    case err
    show ?thesis
      unfolding err using f by (intro allI exclusive_to_children_error)
  next
    case rec
    have a: "as_dict node = Inr d"
      by (simp add: node as_dict_def)
    have fresh: "\<forall>n\<in>set children. annotation_free n"
      using get_wiki_space_nodes_fresh[OF rec(2) "4.prems"(1)] .
    have "\<forall>n\<in>set cs'. \<forall>k. exclusive_to k n"
      using "4.IH"[OF a refl refl refl nc refl rec(1) rec(2) refl refl "4.prems"(1) fresh rec(3)] .
    then show ?thesis
      unfolding rec(4) using f by (intro allI exclusive_to_children)
  qed
qed

text \<open>
  Claim C9, as the code has it. Let every node the platform lists, and every node
  passed to the traversal, come without the four annotation keys. Then on every node
  of the list the traversal returns, and on every node any number of levels below it,
  \<^verbatim>\<open>content\<close> and \<^verbatim>\<open>content_error\<close> are never both present, and neither are \<^verbatim>\<open>children\<close>
  and \<^verbatim>\<open>children_error\<close>. The traversal only adds entries to a node: an entry a node
  arrives with stays.
\<close>

theorem annotations_mutually_exclusive:
  fixes env :: "'w env"
  assumes "fresh_listings env"
    and "\<forall>n\<in>set nodes. annotation_free n"
    and "read_wiki_nodes_recursive env space_id nodes depth s = Some (Inr out, s')"
  shows "\<forall>n\<in>set out. \<forall>k. exclusive_to k n"
  using assms by (rule traversal_exclusive(1))

lemma annotation_free_node_of: "annotation_free (node_of token obj_type has_child)"
  by (simp add: annotation_free_def node_of_def annotation_keys_def)

lemma fresh_listings_small_env: "fresh_listings small_env"
  unfolding fresh_listings_def
proof (intro allI impI)
  fix space_id params w data w' v xs
  assume a: "make_request small_env (Request (Wiki_Space_Nodes space_id) params) w = (Inr data, w')"
    and v: "py_get data ''items'' (JArr []) = Inr v" and xs: "py_iter v = Inr xs"
  from a have "data = JObj [(''items'', JArr [node_of ''a'' ''docx'' False,
                                               node_of ''b'' ''docx'' False,
                                               node_of ''c'' ''docx'' False]),
                             (''has_more'', JBool False)]"
    by (auto simp: small_env_def env_of_def small_wiki_def split: option.splits)
  with v xs have "xs = [node_of ''a'' ''docx'' False, node_of ''b'' ''docx'' False,
                        node_of ''c'' ''docx'' False]"
    by (auto simp: dict_get_def)
  then show "\<forall>n\<in>set xs. annotation_free n"
    by (simp add: annotation_free_node_of)
qed

lemma read_wiki_node_small_p:
  "read_wiki_node small_env (JStr ''space'') (node_of ''p'' ''docx'' True) depth s
     = Some (Inr (JObj (p_dict @ [(''content'', p_content),
                                  (''children_error'', JStr ''children unavailable'')])),
             s\<lparr>world := world s + 3\<rparr>)"
  by (simp add: read_wiki_node.simps node_of_p as_dict_def Let_def p_dict_def dict_get_def
      node_content_def read_docx_small get_wiki_space_nodes_small_children p_content_def)

lemma read_mixed_nodes:
  "read_wiki_nodes_recursive small_env (JStr ''space'') mixed_nodes 0 (start 0)
     = Some (Inr mixed_nodes_read, \<lparr>world = 6, logged = []\<rparr>)"
  by (simp add: read_wiki_nodes_recursive.simps mixed_nodes_def mixed_nodes_read_def
      read_wiki_node_small_leaf read_wiki_node_small_denied read_wiki_node_small_p start_def
      p_dict_def p_content_def)

theorem annotations_mutually_exclusive_witness:
  "fresh_listings small_env
   \<and> annotation_free (mixed_nodes ! 0) \<and> annotation_free (mixed_nodes ! 1)
   \<and> annotation_free (mixed_nodes ! 2)
   \<and> read_wiki_nodes_recursive small_env (JStr ''space'') mixed_nodes 0 (start 0)
       = Some (Inr mixed_nodes_read, \<lparr>world = 6, logged = []\<rparr>)
   \<and> exclusive_to 3 (mixed_nodes_read ! 0) \<and> exclusive_to 3 (mixed_nodes_read ! 1)
   \<and> exclusive_to 3 (mixed_nodes_read ! 2)"
proof -
  have af: "\<forall>n\<in>set mixed_nodes. annotation_free n"
    by (simp add: mixed_nodes_def annotation_free_node_of)
  from annotations_mutually_exclusive[OF fresh_listings_small_env af read_mixed_nodes]
  have ex: "\<forall>n\<in>set mixed_nodes_read. \<forall>k. exclusive_to k n" .
  have "length mixed_nodes_read = 3"
    by (simp add: mixed_nodes_read_def)
  then have "mixed_nodes_read ! 0 \<in> set mixed_nodes_read"
    "mixed_nodes_read ! 1 \<in> set mixed_nodes_read" "mixed_nodes_read ! 2 \<in> set mixed_nodes_read"
    by simp_all
  with ex have "exclusive_to 3 (mixed_nodes_read ! 0)" "exclusive_to 3 (mixed_nodes_read ! 1)"
    "exclusive_to 3 (mixed_nodes_read ! 2)"
    by blast+
  moreover have "annotation_free (mixed_nodes ! 0)" "annotation_free (mixed_nodes ! 1)"
    "annotation_free (mixed_nodes ! 2)"
    by (simp_all add: mixed_nodes_def annotation_free_node_of)
  ultimately show ?thesis
    using fresh_listings_small_env read_mixed_nodes by blast
qed

lemma send_stale_env:
  "send stale_env rq s = (fst (stale_wiki rq (world s)), s\<lparr>world := world s + 1\<rparr>)"
  by (simp add: send_def stale_env_def env_of_def stale_wiki_def split: request.splits)

lemma get_wiki_space_nodes_stale:
  "get_wiki_space_nodes stale_env sp JNull s
     = Some (Inr [stale_node], s\<lparr>world := world s + 1\<rparr>)"
  unfolding get_wiki_space_nodes_def
  by (subst get_wiki_space_nodes_loop.simps)
    (simp add: send_stale_env stale_wiki_def with_page_token_def dict_get_def py_extend_def)

lemma read_docx_stale:
  "read_docx stale_env tok s
     = Some (Inl (Exception ''permission denied''), s\<lparr>world := world s + 1\<rparr>)"
  by (simp add: read_docx_def send_stale_env stale_wiki_def)

lemma read_wiki_node_stale:
  "read_wiki_node stale_env sp stale_node depth s
     = Some (Inr stale_node_read, s\<lparr>world := world s + 1\<rparr>)"
  by (simp add: read_wiki_node.simps stale_node_def stale_node_read_def as_dict_def dict_get_def
      Let_def node_content_def read_docx_stale)

text \<open>
  The claim as it is written fails on a listed node that already carries \<^verbatim>\<open>content\<close>:
  when its read fails the traversal adds \<^verbatim>\<open>content_error\<close> and leaves \<^verbatim>\<open>content\<close>.
\<close>

theorem stale_content_counterexample:
  "read_wiki_space stale_env (JStr ''space'') True (start 0)
     = Some (Inr [(''space'', JObj [(''space_id'', JStr ''space'')]),
                  (''nodes'', JArr [stale_node_read]),
                  (''node_count'', JInt 1)],
             \<lparr>world = 3, logged = []\<rparr>)
   \<and> read_wiki_nodes_recursive stale_env (JStr ''space'') [stale_node] 0 (start 0)
       = Some (Inr [stale_node_read], \<lparr>world = 1, logged = []\<rparr>)
   \<and> \<not> exclusive stale_node_read
   \<and> \<not> exclusive_to 0 stale_node_read
   \<and> (\<exists>d. stale_node_read = JObj d \<and> map_of d ''content'' = Some (JStr ''cached'') \<and>
          map_of d ''content_error'' = Some (JStr ''permission denied''))"
proof -
  have r: "read_wiki_nodes_recursive stale_env (JStr ''space'') [stale_node] 0 s
       = Some (Inr [stale_node_read], s\<lparr>world := world s + 1\<rparr>)" for s
    by (simp add: read_wiki_nodes_recursive.simps read_wiki_node_stale)
  have a: "read_wiki_space stale_env (JStr ''space'') True (start 0)
     = Some (Inr [(''space'', JObj [(''space_id'', JStr ''space'')]),
                  (''nodes'', JArr [stale_node_read]),
                  (''node_count'', JInt 1)],
             \<lparr>world = 3, logged = []\<rparr>)"
    by (simp add: read_wiki_space_def send_stale_env stale_wiki_def get_wiki_space_nodes_stale r
        start_def dict_get_def)
  have b: "read_wiki_nodes_recursive stale_env (JStr ''space'') [stale_node] 0 (start 0)
       = Some (Inr [stale_node_read], \<lparr>world = 1, logged = []\<rparr>)"
    by (simp add: r start_def)
  have c: "\<not> exclusive stale_node_read"
    by (simp add: exclusive_def stale_node_read_def)
  have d: "\<exists>d. stale_node_read = JObj d \<and> map_of d ''content'' = Some (JStr ''cached'') \<and>
          map_of d ''content_error'' = Some (JStr ''permission denied'')"
    by (simp add: stale_node_read_def)
  from c have c': "\<not> exclusive_to 0 stale_node_read" by simp
  show ?thesis
    using a b c c' d by (intro conjI)
qed

subsection \<open>The depth limit of the traversal\<close>








lemma world_same: "s\<lparr>world := world s\<rparr> = s"
  by simp







end
